theory Spec2Isabelle
  imports Main "HOL-Library.Word"
begin

unbundle bit_operations_syntax

section \<open>The operating system as the program sees it\<close>

text \<open>
  \<^verbatim>\<open>update-mod-nss.c\<close> talks to the kernel through file descriptors and to the
  certificate store through libnss. The model keeps an inode table (a descriptor is
  the number of the inode it pins), the process's effective identity, the open
  certificate database and a journal of the mutations the process itself performed.

  Other processes and failing calls are modelled by a schedule: every call to the
  environment first takes the next entry of the schedule, applies the writes other
  processes made since the previous call, and fails with the entry's error number if
  it has one. An empty schedule is a quiet machine on which no call fails for an
  external reason.
\<close>

type_synonym bytes = string
type_synonym ino = nat
type_synonym mode_t = "32 word"

record timespec =
  tv_sec :: int
  tv_nsec :: int

datatype special = Fifo | Chr | Blk | Sock

datatype kind = Reg bytes | Lnk string | Dir "(string \<times> ino) list" | Special special

record inode =
  i_kind :: kind
  i_uid :: nat
  i_gid :: nat
  i_perm :: mode_t
  i_atim :: timespec
  i_mtim :: timespec

record stat =
  st_mode :: mode_t
  st_uid :: nat
  st_gid :: nat
  st_size :: int
  st_atim :: timespec
  st_mtim :: timespec

text \<open>The file type bits of \<^verbatim>\<open>st_mode\<close> (octal 0170000 and friends) and \<^verbatim>\<open>SSIZE_MAX\<close>.\<close>

definition S_IFMT :: mode_t where "S_IFMT = 0xF000"
definition S_IFREG :: mode_t where "S_IFREG = 0x8000"
definition S_IFDIR :: mode_t where "S_IFDIR = 0x4000"
definition S_IFLNK :: mode_t where "S_IFLNK = 0xA000"
definition S_IFSOCK :: mode_t where "S_IFSOCK = 0xC000"
definition S_IFIFO :: mode_t where "S_IFIFO = 0x1000"
definition S_IFCHR :: mode_t where "S_IFCHR = 0x2000"
definition S_IFBLK :: mode_t where "S_IFBLK = 0x6000"
definition SSIZE_MAX :: int where "SSIZE_MAX = 2 ^ 63 - 1"

definition S_ISREG :: "mode_t \<Rightarrow> bool" where "S_ISREG m = (m AND S_IFMT = S_IFREG)"
definition S_ISDIR :: "mode_t \<Rightarrow> bool" where "S_ISDIR m = (m AND S_IFMT = S_IFDIR)"
definition S_ISLNK :: "mode_t \<Rightarrow> bool" where "S_ISLNK m = (m AND S_IFMT = S_IFLNK)"

fun type_bits :: "kind \<Rightarrow> mode_t" where
  "type_bits (Reg _) = S_IFREG"
| "type_bits (Lnk _) = S_IFLNK"
| "type_bits (Dir _) = S_IFDIR"
| "type_bits (Special Fifo) = S_IFIFO"
| "type_bits (Special Chr) = S_IFCHR"
| "type_bits (Special Blk) = S_IFBLK"
| "type_bits (Special Sock) = S_IFSOCK"

fun size_of_kind :: "kind \<Rightarrow> int" where
  "size_of_kind (Reg bs) = int (length bs)"
| "size_of_kind (Lnk t) = int (length t)"
| "size_of_kind (Dir _) = 4096"
| "size_of_kind (Special _) = 0"

definition stat_of :: "inode \<Rightarrow> stat" where
  "stat_of n = \<lparr> st_mode = type_bits (i_kind n) OR (i_perm n AND 0xFFF),
                 st_uid = i_uid n, st_gid = i_gid n,
                 st_size = size_of_kind (i_kind n),
                 st_atim = i_atim n, st_mtim = i_mtim n \<rparr>"

datatype errno = EBADF | ENOENT | EEXIST | ENOTDIR | EISDIR | ELOOP | EINVAL
  | ENOTEMPTY | ENXIO | ENOMEM | EIO | EPERM | EACCES | ENOSPC

datatype oflag = O_RDONLY | O_WRONLY | O_RDWR | O_CREAT | O_EXCL | O_NOFOLLOW
  | O_PATH | O_DIRECTORY

text \<open>The certificate store, as opaque as libnss leaves it.\<close>

datatype sec_item_type = siUTCTime | siGeneralizedTime | siBuffer

record cert =
  nickname :: string
  der :: bytes
  notAfter_type :: sec_item_type
  notAfter_decodes :: bool

record nss_db =
  db_certs :: "cert list"
  db_friendly :: bool

text \<open>
  Modelled from the spec: libnss and its file formats are not part of the repository.
  The library is a parameter: how it reads a database file, how it writes one, and
  how it decodes a PEM or DER package.
\<close>

record nss_lib =
  db_decode :: "bytes \<Rightarrow> nss_db option"
  db_encode :: "nss_db \<Rightarrow> bytes"
  cert_decode :: "bytes \<Rightarrow> cert option"

text \<open>The broken-down time \<^verbatim>\<open>gmtime\<close> returns.\<close>

record tm =
  tm_sec :: int
  tm_min :: int
  tm_hour :: int
  tm_mday :: int
  tm_mon :: int
  tm_year :: int

record step =
  env_writes :: "(ino \<times> inode) list"
  fault :: "errno option"

datatype event =
    Ev_mkdirat ino string
  | Ev_creat ino string
  | Ev_fallocate ino
  | Ev_memcpy ino ino
  | Ev_chown ino
  | Ev_chmod ino
  | Ev_utimens ino
  | Ev_symlinkat ino string string
  | Ev_renameat ino string string
  | Ev_unlinkat ino string
  | Ev_nss_delete cert
  | Ev_nss_import cert

record world =
  inodes :: "ino \<Rightarrow> inode option"
  next_ino :: ino
  sched :: "step list"
  journal :: "event list"
  euid :: nat
  egid :: nat
  umask :: mode_t
  cwd :: ino
  abs_path :: "string \<Rightarrow> ino option"
  now_ts :: timespec
  now_tm :: tm
  nss :: "(ino \<times> nss_db) option"
  new_dbdir_name :: string
  old_dbdir_name :: string

text \<open>The globals \<^verbatim>\<open>parse_args\<close> sets before the core runs.\<close>

record config =
  cert_hostname :: string
  nss_uid :: nat
  nss_gid :: nat
  verbosity :: nat
  lib :: nss_lib

definition LOG_DEBUG :: nat where "LOG_DEBUG = 7"
definition LOG_INFO :: nat where "LOG_INFO = 6"

subsection \<open>Termination and sequencing\<close>

datatype err = FATAL string | NSS_FATAL string | ABORT string | KILLED string | OutOfFuel

type_synonym 'a prog = "world \<Rightarrow> (err + 'a) \<times> world"

definition preturn :: "'a \<Rightarrow> 'a prog" where
  "preturn x w = (Inr x, w)"

definition pfail :: "err \<Rightarrow> 'a prog" where
  "pfail e w = (Inl e, w)"

definition pbind :: "'a prog \<Rightarrow> ('a \<Rightarrow> 'b prog) \<Rightarrow> 'b prog" where
  "pbind m f w = (case m w of (Inl e, w1) \<Rightarrow> (Inl e, w1) | (Inr x, w1) \<Rightarrow> f x w1)"

definition pseq :: "'a prog \<Rightarrow> 'b prog \<Rightarrow> 'b prog" where
  "pseq m n = pbind m (\<lambda>_. n)"

text \<open>\<^verbatim>\<open>if (call(...) < 0) FATAL(msg)\<close>\<close>

definition or_fatal :: "(errno + 'a) prog \<Rightarrow> string \<Rightarrow> 'a prog" where
  "or_fatal m msg =
     pbind m (\<lambda>r. case r of Inl e \<Rightarrow> pfail (FATAL msg) | Inr x \<Rightarrow> preturn x)"

definition or_nss_fatal :: "(errno + 'a) prog \<Rightarrow> string \<Rightarrow> 'a prog" where
  "or_nss_fatal m msg =
     pbind m (\<lambda>r. case r of Inl e \<Rightarrow> pfail (NSS_FATAL msg) | Inr x \<Rightarrow> preturn x)"

definition passert :: "bool \<Rightarrow> string \<Rightarrow> unit prog" where
  "passert b msg = (if b then preturn () else pfail (ABORT msg))"

subsection \<open>The schedule\<close>

text \<open>
  A write of another process replaces an inode. The target of a symbolic link cannot
  change once the link exists, so a write that would change it is dropped.
\<close>

fun is_lnk :: "kind \<Rightarrow> bool" where
  "is_lnk (Lnk _) = True"
| "is_lnk _ = False"

definition env_write :: "ino \<times> inode \<Rightarrow> world \<Rightarrow> world" where
  "env_write p w =
     (case inodes w (fst p) of
        Some n \<Rightarrow>
          if is_lnk (i_kind n) \<and> i_kind (snd p) \<noteq> i_kind n then w
          else w\<lparr>inodes := (inodes w)(fst p \<mapsto> snd p)\<rparr>
      | None \<Rightarrow>
          w\<lparr>inodes := (inodes w)(fst p \<mapsto> snd p),
            next_ino := max (next_ino w) (Suc (fst p))\<rparr>)"

definition env_step :: "world \<Rightarrow> errno option \<times> world" where
  "env_step w =
     (case sched w of
        [] \<Rightarrow> (None, w)
      | s # ss \<Rightarrow> (fault s, fold env_write (env_writes s) (w\<lparr>sched := ss\<rparr>)))"

definition syscall :: "(world \<Rightarrow> (errno + 'a) \<times> world) \<Rightarrow> (errno + 'a) prog" where
  "syscall op w =
     (case env_step w of
        (Some e, w1) \<Rightarrow> (Inr (Inl e), w1)
      | (None, w1) \<Rightarrow> (case op w1 of (r, w2) \<Rightarrow> (Inr r, w2)))"

definition log_ev :: "event \<Rightarrow> world \<Rightarrow> world" where
  "log_ev e w = w\<lparr>journal := journal w @ [e]\<rparr>"

subsection \<open>Kernel calls\<close>

definition set_inode :: "ino \<Rightarrow> inode \<Rightarrow> world \<Rightarrow> world" where
  "set_inode i n w = w\<lparr>inodes := (inodes w)(i \<mapsto> n)\<rparr>"

definition with_inode ::
  "ino \<Rightarrow> (inode \<Rightarrow> world \<Rightarrow> (errno + 'a) \<times> world) \<Rightarrow> world \<Rightarrow> (errno + 'a) \<times> world" where
  "with_inode fd f w = (case inodes w fd of None \<Rightarrow> (Inl EBADF, w) | Some n \<Rightarrow> f n w)"

definition with_dir ::
  "ino \<Rightarrow> (inode \<Rightarrow> (string \<times> ino) list \<Rightarrow> world \<Rightarrow> (errno + 'a) \<times> world)
     \<Rightarrow> world \<Rightarrow> (errno + 'a) \<times> world" where
  "with_dir fd f =
     with_inode fd (\<lambda>d w. case i_kind d of Dir es \<Rightarrow> f d es w | _ \<Rightarrow> (Inl ENOTDIR, w))"

definition fresh_inode :: "kind \<Rightarrow> mode_t \<Rightarrow> world \<Rightarrow> inode" where
  "fresh_inode k m w =
     \<lparr> i_kind = k, i_uid = euid w, i_gid = egid w,
       i_perm = m AND NOT (umask w) AND 0xFFF,
       i_atim = now_ts w, i_mtim = now_ts w \<rparr>"

text \<open>A new name in a directory: the entry goes last, a new inode is allocated.\<close>

definition add_entry ::
  "ino \<Rightarrow> inode \<Rightarrow> (string \<times> ino) list \<Rightarrow> string \<Rightarrow> inode \<Rightarrow> world \<Rightarrow> world" where
  "add_entry dirfd d es name n w =
     w\<lparr>inodes := (inodes w)
          (dirfd \<mapsto> d\<lparr>i_kind := Dir (es @ [(name, next_ino w)]), i_mtim := now_ts w\<rparr>,
           next_ino w \<mapsto> n),
       next_ino := Suc (next_ino w)\<rparr>"

definition wants_write :: "oflag list \<Rightarrow> bool" where
  "wants_write flags = (O_WRONLY \<in> set flags \<or> O_RDWR \<in> set flags)"

text \<open>
  Opening an inode that exists. The program opens every existing name with
  \<^verbatim>\<open>O_NOFOLLOW\<close>, so a symbolic link is never followed: it is returned itself
  under \<^verbatim>\<open>O_PATH\<close> and refused with \<^verbatim>\<open>ELOOP\<close> otherwise.
\<close>

definition open_inode :: "ino \<Rightarrow> oflag list \<Rightarrow> world \<Rightarrow> (errno + ino) \<times> world" where
  "open_inode i flags w =
     (case inodes w i of
        None \<Rightarrow> (Inl ENOENT, w)
      | Some n \<Rightarrow>
          (case i_kind n of
             Lnk t \<Rightarrow>
               if O_PATH \<in> set flags \<and> O_DIRECTORY \<notin> set flags then (Inr i, w)
               else (Inl ELOOP, w)
           | Dir es \<Rightarrow>
               if O_PATH \<notin> set flags \<and> wants_write flags then (Inl EISDIR, w)
               else (Inr i, w)
           | Reg bs \<Rightarrow>
               if O_DIRECTORY \<in> set flags then (Inl ENOTDIR, w) else (Inr i, w)
           | Special t \<Rightarrow>
               if O_DIRECTORY \<in> set flags then (Inl ENOTDIR, w)
               else if O_PATH \<in> set flags then (Inr i, w)
               else if t = Sock then (Inl ENXIO, w)
               else (Inr i, w)))"

definition openat :: "ino \<Rightarrow> string \<Rightarrow> oflag list \<Rightarrow> mode_t \<Rightarrow> (errno + ino) prog" where
  "openat dirfd name flags m =
     syscall (with_dir dirfd (\<lambda>d es w.
       case map_of es name of
         None \<Rightarrow>
           if O_CREAT \<in> set flags
           then (Inr (next_ino w),
                 log_ev (Ev_creat dirfd name)
                   (add_entry dirfd d es name (fresh_inode (Reg []) m w) w))
           else (Inl ENOENT, w)
       | Some i \<Rightarrow>
           if O_CREAT \<in> set flags \<and> O_EXCL \<in> set flags then (Inl EEXIST, w)
           else open_inode i flags w))"

text \<open>\<^verbatim>\<open>open\<close> of an absolute path, and of \<^verbatim>\<open>/proc/self/fd/N\<close>.\<close>

definition open_abs :: "string \<Rightarrow> oflag list \<Rightarrow> (errno + ino) prog" where
  "open_abs path flags =
     syscall (\<lambda>w. case abs_path w path of
                     None \<Rightarrow> (Inl ENOENT, w)
                   | Some i \<Rightarrow> open_inode i flags w)"

definition open_proc_fd :: "ino \<Rightarrow> oflag list \<Rightarrow> (errno + ino) prog" where
  "open_proc_fd orig flags = syscall (open_inode orig flags)"

definition fstat :: "ino \<Rightarrow> (errno + stat) prog" where
  "fstat fd = syscall (with_inode fd (\<lambda>n w. (Inr (stat_of n), w)))"

text \<open>\<^verbatim>\<open>readlinkat(fd, "", buf, bufsiz)\<close>: at most \<open>bufsiz\<close> bytes, no terminator.\<close>

definition readlinkat :: "ino \<Rightarrow> nat \<Rightarrow> (errno + bytes) prog" where
  "readlinkat fd bufsiz =
     syscall (with_inode fd (\<lambda>n w.
       case i_kind n of Lnk t \<Rightarrow> (Inr (take bufsiz t), w) | _ \<Rightarrow> (Inl EINVAL, w)))"

definition close :: "ino \<Rightarrow> (errno + unit) prog" where
  "close fd = syscall (\<lambda>w. (Inr (), w))"

definition mkdirat :: "ino \<Rightarrow> string \<Rightarrow> mode_t \<Rightarrow> (errno + unit) prog" where
  "mkdirat dirfd name m =
     syscall (with_dir dirfd (\<lambda>d es w.
       case map_of es name of
         Some i \<Rightarrow> (Inl EEXIST, w)
       | None \<Rightarrow>
           (Inr (), log_ev (Ev_mkdirat dirfd name)
                      (add_entry dirfd d es name (fresh_inode (Dir []) m w) w))))"

definition symlinkat :: "string \<Rightarrow> ino \<Rightarrow> string \<Rightarrow> (errno + unit) prog" where
  "symlinkat target dirfd name =
     syscall (with_dir dirfd (\<lambda>d es w.
       case map_of es name of
         Some i \<Rightarrow> (Inl EEXIST, w)
       | None \<Rightarrow>
           if target = [] then (Inl ENOENT, w)
           else (Inr (), log_ev (Ev_symlinkat dirfd name target)
                   (add_entry dirfd d es name
                      ((fresh_inode (Lnk target) 0x1FF w)\<lparr>i_perm := 0x1FF\<rparr>) w))))"

text \<open>\<^verbatim>\<open>fchown(fd, uid, gid)\<close>; \<open>None\<close> is the \<^verbatim>\<open>-1\<close> that leaves an id as it is.\<close>

definition fchown :: "ino \<Rightarrow> nat option \<Rightarrow> nat option \<Rightarrow> (errno + unit) prog" where
  "fchown fd u g =
     syscall (with_inode fd (\<lambda>n w.
       (Inr (), log_ev (Ev_chown fd)
          (set_inode fd (n\<lparr>i_uid := (case u of None \<Rightarrow> i_uid n | Some x \<Rightarrow> x),
                           i_gid := (case g of None \<Rightarrow> i_gid n | Some x \<Rightarrow> x)\<rparr>) w))))"

definition fchmod :: "ino \<Rightarrow> mode_t \<Rightarrow> (errno + unit) prog" where
  "fchmod fd m =
     syscall (with_inode fd (\<lambda>n w.
       (Inr (), log_ev (Ev_chmod fd) (set_inode fd (n\<lparr>i_perm := m AND 0xFFF\<rparr>) w))))"

text \<open>\<^verbatim>\<open>futimens(fd, times)\<close>, and \<^verbatim>\<open>utimensat\<close> through \<^verbatim>\<open>/proc/self/fd/N\<close>.\<close>

definition futimens :: "ino \<Rightarrow> timespec \<Rightarrow> timespec \<Rightarrow> (errno + unit) prog" where
  "futimens fd a m =
     syscall (with_inode fd (\<lambda>n w.
       (Inr (), log_ev (Ev_utimens fd) (set_inode fd (n\<lparr>i_atim := a, i_mtim := m\<rparr>) w))))"

definition zeros :: "nat \<Rightarrow> bytes" where
  "zeros n = replicate n (CHR 0x00)"

definition fallocate :: "ino \<Rightarrow> int \<Rightarrow> (errno + unit) prog" where
  "fallocate fd len =
     syscall (with_inode fd (\<lambda>n w.
       case i_kind n of
         Reg bs \<Rightarrow>
           (Inr (), log_ev (Ev_fallocate fd)
              (set_inode fd (n\<lparr>i_kind := Reg (bs @ zeros (nat len - length bs))\<rparr>) w))
       | _ \<Rightarrow> (Inl EINVAL, w)))"

definition mmap :: "ino \<Rightarrow> int \<Rightarrow> (errno + unit) prog" where
  "mmap fd len =
     syscall (with_inode fd (\<lambda>n w.
       case i_kind n of Reg bs \<Rightarrow> (Inr (), w) | _ \<Rightarrow> (Inl EACCES, w)))"

definition munmap :: "ino \<Rightarrow> int \<Rightarrow> (errno + unit) prog" where
  "munmap fd len = syscall (\<lambda>w. (Inr (), w))"

text \<open>
  \<^verbatim>\<open>memcpy(dmap, smap, n)\<close> between the two mappings: the first \<open>n\<close> bytes of the
  destination file become the first \<open>n\<close> bytes of the source file as it is now; the
  kernel stamps the destination's modification time. The rest of the last page of a
  file reads as zeros, but a page that lies wholly past the end of its file cannot be
  touched: if another process has cut a file that short since it was mapped, the
  process is killed by \<^verbatim>\<open>SIGBUS\<close>.
\<close>

definition pages :: "nat \<Rightarrow> nat" where
  "pages n = (n + 4095) div 4096"

definition file_bytes :: "world \<Rightarrow> ino \<Rightarrow> bytes" where
  "file_bytes w fd =
     (case inodes w fd of
        Some n \<Rightarrow> (case i_kind n of Reg bs \<Rightarrow> bs | _ \<Rightarrow> [])
      | None \<Rightarrow> [])"

definition memcpy_map :: "ino \<Rightarrow> ino \<Rightarrow> int \<Rightarrow> unit prog" where
  "memcpy_map dest src len w =
     (if pages (length (file_bytes w src)) < pages (nat len)
         \<or> pages (length (file_bytes w dest)) < pages (nat len)
      then (Inl (KILLED ''SIGBUS''), w)
      else
      (case inodes w dest of
         Some n \<Rightarrow>
           (Inr (), log_ev (Ev_memcpy dest src)
              (set_inode dest
                 (n\<lparr>i_kind := Reg (take (nat len) (file_bytes w src @ zeros (nat len))
                                    @ drop (nat len) (file_bytes w dest)),
                    i_mtim := now_ts w\<rparr>) w))
       | None \<Rightarrow> (Inr (), w)))"

text \<open>
  \<^verbatim>\<open>renameat\<close> within one directory: the new name takes the old name's inode in one
  step, whether or not the new name existed.
\<close>

definition rename_entries ::
  "string \<Rightarrow> string \<Rightarrow> ino \<Rightarrow> (string \<times> ino) list \<Rightarrow> (string \<times> ino) list" where
  "rename_entries old new i es =
     (let rest = filter (\<lambda>p. fst p \<noteq> old) es in
      if new \<in> fst ` set rest
      then map (\<lambda>p. if fst p = new then (new, i) else p) rest
      else rest @ [(new, i)])"

definition renameat :: "ino \<Rightarrow> string \<Rightarrow> string \<Rightarrow> (errno + unit) prog" where
  "renameat dirfd old new =
     syscall (with_dir dirfd (\<lambda>d es w.
       case map_of es old of
         None \<Rightarrow> (Inl ENOENT, w)
       | Some i \<Rightarrow>
           (Inr (), log_ev (Ev_renameat dirfd old new)
              (set_inode dirfd
                 (d\<lparr>i_kind := Dir (rename_entries old new i es), i_mtim := now_ts w\<rparr>) w))))"

text \<open>\<^verbatim>\<open>unlinkat(dirfd, name, flags)\<close>; \<open>rmdir\<close> is \<^verbatim>\<open>AT_REMOVEDIR\<close>.\<close>

definition is_dir_ino :: "world \<Rightarrow> ino \<Rightarrow> bool" where
  "is_dir_ino w i =
     (case inodes w i of
        Some n \<Rightarrow> (case i_kind n of Dir es \<Rightarrow> True | _ \<Rightarrow> False)
      | None \<Rightarrow> False)"

definition is_empty_dir :: "world \<Rightarrow> ino \<Rightarrow> bool" where
  "is_empty_dir w i =
     (case inodes w i of
        Some n \<Rightarrow> (case i_kind n of Dir es \<Rightarrow> es = [] | _ \<Rightarrow> False)
      | None \<Rightarrow> False)"

definition unlinkat :: "ino \<Rightarrow> string \<Rightarrow> bool \<Rightarrow> (errno + unit) prog" where
  "unlinkat dirfd name rmdir =
     syscall (with_dir dirfd (\<lambda>d es w.
       case map_of es name of
         None \<Rightarrow> (Inl ENOENT, w)
       | Some i \<Rightarrow>
           if rmdir \<and> \<not> is_dir_ino w i then (Inl ENOTDIR, w)
           else if rmdir \<and> \<not> is_empty_dir w i then (Inl ENOTEMPTY, w)
           else if \<not> rmdir \<and> is_dir_ino w i then (Inl EISDIR, w)
           else (Inr (), log_ev (Ev_unlinkat dirfd name)
                   (set_inode dirfd
                      (d\<lparr>i_kind := Dir (filter (\<lambda>p. fst p \<noteq> name) es),
                         i_mtim := now_ts w\<rparr>) w))))"

text \<open>
  A directory stream: \<^verbatim>\<open>fdopendir\<close> takes the names the directory holds, with
  \<^verbatim>\<open>.\<close> and \<^verbatim>\<open>..\<close> first; each \<^verbatim>\<open>readdir\<close> hands out the next one or fails.
\<close>

definition fdopendir :: "ino \<Rightarrow> (errno + string list) prog" where
  "fdopendir fd =
     syscall (with_dir fd (\<lambda>d es w. (Inr (''.'' # ''..'' # map fst es), w)))"

definition readdir :: "string list \<Rightarrow> (errno + string option) prog" where
  "readdir names =
     syscall (\<lambda>w. (Inr (case names of [] \<Rightarrow> None | d # ds \<Rightarrow> Some d), w))"

definition closedir :: "(errno + unit) prog" where
  "closedir = syscall (\<lambda>w. (Inr (), w))"

text \<open>\<^verbatim>\<open>malloc\<close> and \<^verbatim>\<open>asprintf\<close> can fail; nothing else about them matters.\<close>

definition alloc :: "(errno + unit) prog" where
  "alloc = syscall (\<lambda>w. (Inr (), w))"

definition read_fd :: "ino \<Rightarrow> int \<Rightarrow> (errno + bytes) prog" where
  "read_fd fd len =
     syscall (with_inode fd (\<lambda>n w.
       case i_kind n of
         Reg bs \<Rightarrow> (Inr (take (nat len) bs), w)
       | Dir es \<Rightarrow> (Inl EISDIR, w)
       | _ \<Rightarrow> (Inl EINVAL, w)))"

definition fchdir :: "ino \<Rightarrow> (errno + unit) prog" where
  "fchdir fd = syscall (with_dir fd (\<lambda>d es w. (Inr (), w\<lparr>cwd := fd\<rparr>)))"

definition seteuid :: "nat \<Rightarrow> (errno + unit) prog" where
  "seteuid u = syscall (\<lambda>w. (Inr (), w\<lparr>euid := u\<rparr>))"

definition setegid :: "nat \<Rightarrow> (errno + unit) prog" where
  "setegid g = syscall (\<lambda>w. (Inr (), w\<lparr>egid := g\<rparr>))"

definition geteuid :: "nat prog" where
  "geteuid w = (Inr (euid w), w)"

definition getegid :: "nat prog" where
  "getegid w = (Inr (egid w), w)"

definition gmtime_now :: "tm prog" where
  "gmtime_now w = (Inr (now_tm w), w)"

subsection \<open>C strings and \<^verbatim>\<open>strftime\<close>\<close>

definition cstr :: "string \<Rightarrow> string" where
  "cstr buf = takeWhile (\<lambda>c. c \<noteq> CHR 0x00) buf"

definition strlen :: "string \<Rightarrow> nat" where
  "strlen buf = length (cstr buf)"

text \<open>\<^verbatim>\<open>memcmp(a, b, n) != 0\<close>\<close>

definition memcmp_ne :: "bytes \<Rightarrow> bytes \<Rightarrow> nat \<Rightarrow> bool" where
  "memcmp_ne a b n = (take n a \<noteq> take n b)"

definition digit_char :: "nat \<Rightarrow> char" where
  "digit_char d = ''0123456789'' ! d"

fun dec :: "nat \<Rightarrow> string" where
  "dec n = (if n < 10 then [digit_char n] else dec (n div 10) @ [digit_char (n mod 10)])"

declare dec.simps [simp del]

text \<open>
  glibc's conversions: \<^verbatim>\<open>%Y\<close> is the year as a plain decimal number, with a minus
  sign before the year 0 and no padding; \<^verbatim>\<open>%m %d %H %M %S\<close> are two digits, padded
  with a zero.
\<close>

definition fmt_Y :: "int \<Rightarrow> string" where
  "fmt_Y y = (if y < 0 then CHR ''-'' # dec (nat (- y)) else dec (nat y))"

definition fmt_02 :: "int \<Rightarrow> string" where
  "fmt_02 v =
     (if v < 0 then CHR ''-'' # dec (nat (- v))
      else if v < 10 then CHR ''0'' # dec (nat v)
      else dec (nat v))"

text \<open>
  \<^verbatim>\<open>strftime(buf, maxsize, "%Y%m%d%H%M%S", tm)\<close>: the number of characters written,
  or 0 when the text and its terminator do not fit.
\<close>

definition strftime :: "nat \<Rightarrow> tm \<Rightarrow> nat \<times> string" where
  "strftime maxsize t =
     (let s = fmt_Y (tm_year t + 1900) @ fmt_02 (tm_mon t + 1) @ fmt_02 (tm_mday t)
              @ fmt_02 (tm_hour t) @ fmt_02 (tm_min t) @ fmt_02 (tm_sec t)
      in if length s + 1 \<le> maxsize then (length s, s) else (0, []))"

section \<open>The program\<close>

definition httpd_conf_dir :: string where "httpd_conf_dir = ''/etc/httpd''"
definition acme_cert_dir :: string where "acme_cert_dir = ''/var/lib/acme''"

definition NSSDB_DIR_PATTERN :: string where "NSSDB_DIR_PATTERN = ''alias-YYYYMMDDHHMMSS''"
definition NSSDB_DIR_PTN_SIZE :: nat where "NSSDB_DIR_PTN_SIZE = length NSSDB_DIR_PATTERN + 1"
definition NSSDB_DIR_PTN_LEN :: nat where "NSSDB_DIR_PTN_LEN = NSSDB_DIR_PTN_SIZE - 1"

definition NSSDB_DIR_PREFIX :: string where "NSSDB_DIR_PREFIX = ''alias-''"
definition NSSDB_DIR_PFX_LEN :: nat where "NSSDB_DIR_PFX_LEN = length NSSDB_DIR_PREFIX"

definition NSSDB_DIR_TSTAMP :: string where "NSSDB_DIR_TSTAMP = ''YYYYMMDDHHMMSS''"
definition NSSDB_DIR_TS_SIZE :: nat where "NSSDB_DIR_TS_SIZE = length NSSDB_DIR_TSTAMP + 1"
definition NSSDB_DIR_TS_LEN :: nat where "NSSDB_DIR_TS_LEN = NSSDB_DIR_TS_SIZE - 1"

definition get_old_dbdir_name :: "string prog" where
  "get_old_dbdir_name w = (Inr (old_dbdir_name w), w)"

definition get_new_dbdir_name :: "string prog" where
  "get_new_dbdir_name w = (Inr (new_dbdir_name w), w)"

definition set_old_dbdir_name :: "string \<Rightarrow> unit prog" where
  "set_old_dbdir_name s w = (Inr (), w\<lparr>old_dbdir_name := s\<rparr>)"

definition set_new_dbdir_name :: "string \<Rightarrow> unit prog" where
  "set_new_dbdir_name s w = (Inr (), w\<lparr>new_dbdir_name := s\<rparr>)"

subsection \<open>mod_nss database directories\<close>

definition old_nssdb_dir :: "ino \<Rightarrow> (ino \<times> stat) prog" where
  "old_nssdb_dir httpd_conf_dirfd =
     pbind (or_fatal (openat httpd_conf_dirfd ''alias'' [O_RDONLY, O_NOFOLLOW, O_PATH] 0)
              ''Failed to open symbolic link: alias'') (\<lambda>fd.
     pbind (or_fatal (fstat fd) ''Failed to read symbolic link info: alias'') (\<lambda>linkst.
     if \<not> S_ISLNK (st_mode linkst) then pfail (FATAL ''Not a symbolic link: alias'')
     else if st_size linkst > int NSSDB_DIR_PTN_LEN
       then pfail (FATAL ''Symbolic link target too long: alias'')
     else
     pbind (or_fatal (readlinkat fd NSSDB_DIR_PTN_LEN)
              ''Failed to read symbolic link target: alias'') (\<lambda>got.
     let buf = got @ zeros (NSSDB_DIR_PTN_SIZE - length got) in
     pseq (set_old_dbdir_name (cstr buf))
    (if CHR ''/'' \<in> set (take NSSDB_DIR_PTN_LEN buf)
       then pfail (FATAL ''Symbolic link target invalid: alias'')
     else
     pseq (or_fatal alloc ''Failed to format path: /proc/self/fd'')
    (pseq (or_fatal (close fd) ''Failed to close symbolic link: alias'')
    (pbind get_old_dbdir_name (\<lambda>old_name.
     pbind (or_fatal (openat httpd_conf_dirfd old_name
                        [O_RDONLY, O_DIRECTORY, O_NOFOLLOW] 0)
              ''Failed to open directory: old_dbdir_name'') (\<lambda>dirfd.
     preturn (dirfd, linkst)))))))))"

definition new_nssdb_dir :: "config \<Rightarrow> ino \<Rightarrow> ino prog" where
  "new_nssdb_dir cfg httpd_conf_dirfd =
     pbind gmtime_now (\<lambda>t.
     if tm_year t > 9999 - 1900
       then pfail (FATAL ''This program is not supported in the year'')
     else
     pseq (set_new_dbdir_name NSSDB_DIR_PREFIX)
    (if fst (strftime NSSDB_DIR_TS_SIZE t) \<noteq> NSSDB_DIR_TS_LEN
       then pfail (FATAL ''Failed to format timestamp'')
     else
     pseq (set_new_dbdir_name (NSSDB_DIR_PREFIX @ snd (strftime NSSDB_DIR_TS_SIZE t)))
    (pbind get_new_dbdir_name (\<lambda>new_name.
     pseq (or_fatal (mkdirat httpd_conf_dirfd new_name 0x1E8)
             ''Failed to create directory: new_dbdir_name'')
    (pbind (or_fatal (openat httpd_conf_dirfd new_name
                        [O_RDONLY, O_DIRECTORY, O_NOFOLLOW] 0)
              ''Failed to open directory: new_dbdir_name'') (\<lambda>dirfd.
     pseq (or_fatal (fchown dirfd None (Some (nss_gid cfg)))
             ''Failed to change owner of directory: new_dbdir_name'')
          (preturn dirfd)))))))"

subsection \<open>mod_nss database files\<close>

definition copy_file_contents :: "ino \<Rightarrow> ino \<Rightarrow> string \<Rightarrow> stat \<Rightarrow> unit prog" where
  "copy_file_contents src dest path srcst =
     pseq (passert (path \<noteq> [] \<and> hd path \<noteq> CHR ''/'') ''copy_file_contents: path'')
    (if st_size srcst = 0 then preturn ()
     else if st_size srcst < 0 \<or> st_size srcst > SSIZE_MAX
       then pfail (FATAL ''File size invalid'')
     else
     pseq (or_fatal (fallocate dest (st_size srcst)) ''Failed to allocate file'')
    (pseq (or_fatal (mmap src (st_size srcst)) ''Failed to map file: old'')
    (pseq (or_fatal (mmap dest (st_size srcst)) ''Failed to map file: new'')
    (pseq (memcpy_map dest src (st_size srcst))
    (pseq (or_fatal (munmap src (st_size srcst)) ''Failed to unmap file: old'')
    (pseq (or_fatal (munmap dest (st_size srcst)) ''Failed to unmap file: new'')
    (pbind (or_fatal (fstat src) ''Failed to read file info'') (\<lambda>st.
     if tv_sec (st_mtim st) \<noteq> tv_sec (st_mtim srcst)
          \<or> tv_nsec (st_mtim st) \<noteq> tv_nsec (st_mtim srcst)
       then pfail (FATAL ''File changed during copy'')
     else preturn ()))))))))"

primrec pforeach :: "'a list \<Rightarrow> ('a \<Rightarrow> unit prog) \<Rightarrow> unit prog" where
  "pforeach [] body = preturn ()"
| "pforeach (x # xs) body = pseq (body x) (pforeach xs body)"

definition nssdb_names :: "string list" where
  "nssdb_names = [''cert8.db'', ''key3.db'', ''secmod.db'']"

text \<open>The body of the loop of \<^verbatim>\<open>copy_nssdb_files\<close>, for one name.\<close>

definition copy_nssdb_file :: "config \<Rightarrow> ino \<Rightarrow> ino \<Rightarrow> string \<Rightarrow> unit prog" where
  "copy_nssdb_file cfg srcdir destdir name =
     pbind (or_fatal (openat srcdir name [O_RDONLY, O_NOFOLLOW] 0)
              ''Failed to open file'') (\<lambda>src.
     pbind (or_fatal (fstat src) ''Failed to read file info'') (\<lambda>srcst.
     if \<not> S_ISREG (st_mode srcst) then pfail (FATAL ''Not a regular file'')
     else
     pbind (or_fatal (openat destdir name [O_RDWR, O_CREAT, O_EXCL] 0x1B0)
              ''Failed to create file'') (\<lambda>dest.
     pseq (copy_file_contents src dest name srcst)
    (pseq (or_fatal (fchown dest None (Some (nss_gid cfg)))
             ''Failed to change owner of file'')
    (pseq (or_fatal (fchmod dest 0x1B0) ''Failed to set permissions'')
    (pseq (or_fatal (futimens dest (st_atim srcst) (st_mtim srcst))
             ''Failed to set timestamp'')
    (pseq (or_fatal (close src) ''Failed to close file: old'')
          (or_fatal (close dest) ''Failed to close file: new''))))))))"

definition copy_nssdb_files :: "config \<Rightarrow> ino \<Rightarrow> ino \<Rightarrow> unit prog" where
  "copy_nssdb_files cfg srcdir destdir =
     pforeach nssdb_names (copy_nssdb_file cfg srcdir destdir)"

definition copy_fd :: "ino \<Rightarrow> oflag list \<Rightarrow> ino prog" where
  "copy_fd orig flags =
     pseq (or_fatal alloc ''Failed to format path: /proc/self/fd'')
          (or_fatal (open_proc_fd orig flags) ''Failed to open file: /proc/self/fd'')"

text \<open>
  \<open>target\<close> is the caller's buffer; the C string in it ends at the first zero byte,
  or at the terminator that follows the buffer.
\<close>

definition create_symlink ::
  "ino \<Rightarrow> string \<Rightarrow> string \<Rightarrow> string \<Rightarrow> string \<Rightarrow> ino prog" where
  "create_symlink dirfd target name dbdir_name path =
     pseq (passert (if dbdir_name = [] then path \<noteq> [] \<and> hd path \<noteq> CHR ''/''
                    else take 1 path = ''/'' \<and> 1 < length path)
             ''create_symlink: path'')
    (pseq (or_fatal (symlinkat (cstr target) dirfd name)
             ''Failed to create symbolic link'')
    (pbind (or_fatal (openat dirfd name [O_RDONLY, O_NOFOLLOW, O_PATH] 0)
              ''Failed to open symbolic link'') (\<lambda>fd.
     pbind (or_fatal (fstat fd) ''Failed to read symbolic link info'') (\<lambda>st.
     if \<not> S_ISLNK (st_mode st) then pfail (FATAL ''Not a symbolic link'')
     else if st_size st \<le> 0 \<or> st_size st > SSIZE_MAX - 1
       then pfail (FATAL ''Symbolic link target size invalid'')
     else if nat (st_size st) \<noteq> strlen target
       then pfail (FATAL ''Symbolic link target changed'')
     else
     pseq (or_fatal alloc ''Memory allocation failed'')
    (pbind (or_fatal (readlinkat fd (nat (st_size st)))
              ''Failed to read symbolic link target'') (\<lambda>got.
     let new_target = got @ zeros (nat (st_size st) + 1 - length got) in
     if memcmp_ne (target @ [CHR 0x00]) new_target (nat (st_size st))
       then pfail (FATAL ''Symbolic link target changed'')
     else preturn fd))))))"

definition copy_metadata :: "ino \<Rightarrow> ino \<Rightarrow> string \<Rightarrow> stat \<Rightarrow> bool \<Rightarrow> unit prog" where
  "copy_metadata src dest path srcst copy_timestamps =
     pseq (passert (path = [] \<or> hd path = CHR ''/'') ''copy_metadata: path'')
    (pseq (or_fatal (fchown dest (Some (st_uid srcst)) (Some (st_gid srcst)))
             ''Failed to set ownership'')
    (pseq (if \<not> S_ISLNK (st_mode srcst)
           then or_fatal (fchmod dest (st_mode srcst AND 0xFFF))
                  ''Failed to set permissions''
           else preturn ())
    (pseq (or_fatal alloc ''Failed to format path: /proc/self/fd (src)'')
    (pseq (or_fatal alloc ''Failed to format path: /proc/self/fd (dest)'')
          (if copy_timestamps
           then or_fatal (futimens dest (st_atim srcst) (st_mtim srcst))
                  ''Failed to set timestamp''
           else preturn ())))))"

definition update_nssdb_symlink :: "ino \<Rightarrow> stat \<Rightarrow> unit prog" where
  "update_nssdb_symlink httpd_conf_dirfd linkst =
     pbind get_new_dbdir_name (\<lambda>new_name.
     pbind (create_symlink httpd_conf_dirfd new_name ''alias.new'' [] ''alias.new'') (\<lambda>fd.
     pseq (or_fatal (fchown fd (Some (st_uid linkst)) (Some (st_gid linkst)))
             ''Failed to set symbolic link ownership: alias.new'')
    (pseq (or_fatal (close fd) ''Failed to close symbolic link: alias.new'')
          (or_fatal (renameat httpd_conf_dirfd ''alias.new'' ''alias'')
             ''Failed to rename symbolic link: alias.new to alias''))))"

subsection \<open>Copying the old directory's contents\<close>

definition copy_file :: "ino \<Rightarrow> ino \<Rightarrow> string \<Rightarrow> string \<Rightarrow> stat \<Rightarrow> unit prog" where
  "copy_file srcpfd destdir name path srcst =
     pseq (passert (take 1 path = ''/'' \<and> 1 < length path) ''copy_file: path'')
    (pbind (copy_fd srcpfd [O_RDONLY]) (\<lambda>src.
     pbind (openat destdir name [O_RDWR, O_CREAT, O_EXCL] 0x180) (\<lambda>r.
     pbind (case r of
              Inl e \<Rightarrow>
                if e \<noteq> EEXIST then pfail (FATAL ''Failed to create file'')
                else
                pbind (or_fatal (openat destdir name [O_WRONLY, O_NOFOLLOW] 0)
                         ''Failed to open file'') (\<lambda>dest.
                preturn (dest, False))
            | Inr dest \<Rightarrow>
                pseq (copy_file_contents src dest (tl path) srcst)
                     (preturn (dest, True))) (\<lambda>(dest, copy_timestamps).
     pseq (copy_metadata src dest path srcst copy_timestamps)
    (pseq (or_fatal (close src) ''Failed to close file: old'')
          (or_fatal (close dest) ''Failed to close file: new''))))))"

definition copy_link :: "ino \<Rightarrow> ino \<Rightarrow> string \<Rightarrow> string \<Rightarrow> stat \<Rightarrow> unit prog" where
  "copy_link src destdir name path srcst =
     pseq (passert (take 1 path = ''/'' \<and> 1 < length path) ''copy_link: path'')
    (if st_size srcst \<le> 0 \<or> st_size srcst > SSIZE_MAX - 1
       then pfail (FATAL ''Symbolic link target size invalid'')
     else
     pseq (or_fatal alloc ''Memory allocation failed'')
    (pbind (or_fatal (readlinkat src (nat (st_size srcst)))
              ''Failed to read symbolic link target'') (\<lambda>got.
     let target = got @ zeros (nat (st_size srcst) + 1 - length got) in
     pbind get_new_dbdir_name (\<lambda>new_name.
     pbind (create_symlink destdir target name new_name path) (\<lambda>dest.
     pseq (copy_metadata src dest path srcst True)
          (or_fatal (close dest) ''Failed to close symbolic link''))))))"

text \<open>
  \<^verbatim>\<open>copy_subdir\<close> and \<^verbatim>\<open>copy_dir_contents\<close> call each other. The recursion is
  as deep as the directory tree, which other processes can deepen while it is being
  walked, so it carries fuel: \<open>copy_subdir\<close> takes the walk of the next level as
  \<open>recurse\<close>, and \<open>copy_dir_contents\<close> gives it one unit less.
\<close>

definition copy_subdir ::
  "(ino \<Rightarrow> ino \<Rightarrow> string \<Rightarrow> unit prog) \<Rightarrow> ino \<Rightarrow> ino \<Rightarrow> string \<Rightarrow> string \<Rightarrow> stat
     \<Rightarrow> unit prog" where
  "copy_subdir recurse srcpfd destdir name path srcst =
     pseq (passert (take 1 path = ''/'' \<and> 1 < length path) ''copy_subdir: path'')
    (pbind (copy_fd srcpfd [O_RDONLY, O_DIRECTORY]) (\<lambda>src.
     pseq (or_fatal (mkdirat destdir name 0x1C0) ''Failed to create directory'')
    (pbind (or_fatal (openat destdir name [O_RDONLY, O_DIRECTORY, O_NOFOLLOW] 0)
              ''Failed to open directory'') (\<lambda>dest.
     pseq (recurse src dest path)
    (pseq (copy_metadata src dest path srcst True)
    (pseq (or_fatal (close src) ''Failed to close directory: old'')
          (or_fatal (close dest) ''Failed to close directory: new'')))))))"

text \<open>
  \<^verbatim>\<open>while ((errno = 0, d = readdir(dir)) != NULL) body; if (errno != 0) FATAL(...)\<close>
  over the names of the stream.
\<close>

primrec readdir_loop :: "string list \<Rightarrow> (string \<Rightarrow> unit prog) \<Rightarrow> unit prog" where
  "readdir_loop [] body =
     pbind (or_fatal (readdir []) ''Failed to read directory'') (\<lambda>_. preturn ())"
| "readdir_loop (d # ds) body =
     pbind (or_fatal (readdir (d # ds)) ''Failed to read directory'') (\<lambda>_.
     pseq (body d) (readdir_loop ds body))"

definition copy_dir_entry ::
  "(ino \<Rightarrow> ino \<Rightarrow> string \<Rightarrow> unit prog) \<Rightarrow> ino \<Rightarrow> ino \<Rightarrow> string \<Rightarrow> string
     \<Rightarrow> unit prog" where
  "copy_dir_entry recurse srcdir destdir subdir d_name =
     (if d_name = ''.'' \<or> d_name = ''..'' then preturn ()
      else
      pseq (or_fatal alloc ''Failed to format path'')
     (let path = subdir @ ''/'' @ d_name in
      pbind (or_fatal (openat srcdir d_name [O_RDONLY, O_NOFOLLOW, O_PATH] 0)
               ''Failed to open file'') (\<lambda>src.
      pbind (or_fatal (fstat src) ''Failed to read file info'') (\<lambda>st.
      pseq (if st_mode st AND S_IFMT = S_IFREG
              then copy_file src destdir d_name path st
            else if st_mode st AND S_IFMT = S_IFLNK
              then copy_link src destdir d_name path st
            else if st_mode st AND S_IFMT = S_IFDIR
              then copy_subdir recurse src destdir d_name path st
            else pfail (FATAL ''Unsupported file type''))
           (or_fatal (close src) ''Failed to close file'')))))"

primrec copy_dir_contents :: "nat \<Rightarrow> ino \<Rightarrow> ino \<Rightarrow> string \<Rightarrow> unit prog" where
  "copy_dir_contents 0 srcdir destdir subdir = pfail OutOfFuel"
| "copy_dir_contents (Suc fuel) srcdir destdir subdir =
     pseq (passert (subdir = [] \<or> hd subdir = CHR ''/'') ''copy_dir_contents: subdir'')
    (pbind (copy_fd srcdir [O_RDONLY, O_DIRECTORY]) (\<lambda>dirfd.
     pbind (or_fatal (fdopendir dirfd) ''Failed to open directory stream'') (\<lambda>names.
     pseq (readdir_loop names
             (copy_dir_entry (copy_dir_contents fuel) srcdir destdir subdir))
          (or_fatal closedir ''Failed to close directory stream''))))"

definition copy_nssdb_dir :: "nat \<Rightarrow> ino \<Rightarrow> ino \<Rightarrow> unit prog" where
  "copy_nssdb_dir fuel srcdir destdir =
     pseq (copy_dir_contents fuel srcdir destdir [])
    (pbind (or_fatal (fstat srcdir) ''Failed to read directory info'') (\<lambda>srcst.
     copy_metadata srcdir destdir [] srcst False))"

subsection \<open>Deleting the old directory\<close>

definition delete_dir_entry ::
  "(ino \<Rightarrow> string \<Rightarrow> unit prog) \<Rightarrow> ino \<Rightarrow> string \<Rightarrow> string \<Rightarrow> unit prog" where
  "delete_dir_entry recurse dirfd subdir d_name =
     (if d_name = ''.'' \<or> d_name = ''..'' then preturn ()
      else
      pseq (or_fatal alloc ''Failed to format path'')
     (let path = subdir @ ''/'' @ d_name in
      pbind (or_fatal (openat dirfd d_name [O_RDONLY, O_NOFOLLOW, O_PATH] 0)
               ''Failed to open file'') (\<lambda>fd.
      pbind (or_fatal (fstat fd) ''Failed to read file info'') (\<lambda>st.
      pbind (if S_ISDIR (st_mode st)
             then pseq (recurse fd path) (preturn True)
             else preturn False) (\<lambda>removedir.
      pseq (or_fatal (unlinkat dirfd d_name removedir) ''Failed to delete file'')
           (or_fatal (close fd) ''Failed to close file''))))))"

primrec delete_dir_contents :: "nat \<Rightarrow> ino \<Rightarrow> string \<Rightarrow> unit prog" where
  "delete_dir_contents 0 dirfd subdir = pfail OutOfFuel"
| "delete_dir_contents (Suc fuel) dirfd subdir =
     pseq (passert (subdir = [] \<or> hd subdir = CHR ''/'') ''delete_dir_contents: subdir'')
    (pbind (copy_fd dirfd [O_RDONLY, O_DIRECTORY]) (\<lambda>fd.
     pbind (or_fatal (fdopendir fd) ''Failed to open directory stream'') (\<lambda>names.
     pseq (readdir_loop names (delete_dir_entry (delete_dir_contents fuel) dirfd subdir))
          (or_fatal closedir ''Failed to close directory stream''))))"

definition delete_old_nssdb_dir :: "nat \<Rightarrow> ino \<Rightarrow> ino \<Rightarrow> unit prog" where
  "delete_old_nssdb_dir fuel httpd_conf_dirfd old_nssdb_dirfd =
     pseq (delete_dir_contents fuel old_nssdb_dirfd [])
    (pbind get_old_dbdir_name (\<lambda>old_name.
     or_fatal (unlinkat httpd_conf_dirfd old_name True)
       ''Failed to remove directory: old_dbdir_name''))"

subsection \<open>The certificate store\<close>

text \<open>
  Modelled from the spec: the four operations of libnss the program uses (open for
  read and write, list the records, delete a record, import a record) and the
  decoding of the input package. A change of the open database is written through to
  \<^verbatim>\<open>cert8.db\<close>.
\<close>

definition NSS_InitReadWrite :: "nss_lib \<Rightarrow> (errno + unit) prog" where
  "NSS_InitReadWrite l =
     syscall (\<lambda>w. with_dir (cwd w) (\<lambda>d es w.
       case map_of es ''cert8.db'' of
         None \<Rightarrow> (Inl ENOENT, w)
       | Some i \<Rightarrow>
           (case inodes w i of
              None \<Rightarrow> (Inl ENOENT, w)
            | Some n \<Rightarrow>
                (case i_kind n of
                   Reg bs \<Rightarrow>
                     (case db_decode l bs of
                        None \<Rightarrow> (Inl EIO, w)
                      | Some db \<Rightarrow> (Inr (), w\<lparr>nss := Some (i, db)\<rparr>))
                 | _ \<Rightarrow> (Inl EINVAL, w)))) w)"

definition PK11_GetInternalKeySlot :: "(errno + unit) prog" where
  "PK11_GetInternalKeySlot =
     syscall (\<lambda>w. case nss w of None \<Rightarrow> (Inl EINVAL, w) | Some s \<Rightarrow> (Inr (), w))"

definition PK11_IsFriendly :: "bool prog" where
  "PK11_IsFriendly w =
     (Inr (case nss w of None \<Rightarrow> False | Some s \<Rightarrow> db_friendly (snd s)), w)"

definition PK11_ListCertsInSlot :: "(errno + cert list) prog" where
  "PK11_ListCertsInSlot =
     syscall (\<lambda>w. case nss w of
                     None \<Rightarrow> (Inl EINVAL, w)
                   | Some s \<Rightarrow> (Inr (db_certs (snd s)), w))"

definition nss_store :: "nss_lib \<Rightarrow> ino \<Rightarrow> nss_db \<Rightarrow> world \<Rightarrow> world" where
  "nss_store l i db w =
     (case inodes w i of
        Some n \<Rightarrow>
          set_inode i (n\<lparr>i_kind := Reg (db_encode l db), i_mtim := now_ts w\<rparr>)
            (w\<lparr>nss := Some (i, db)\<rparr>)
      | None \<Rightarrow> w\<lparr>nss := Some (i, db)\<rparr>)"

definition SEC_DeletePermCertificate :: "nss_lib \<Rightarrow> cert \<Rightarrow> (errno + unit) prog" where
  "SEC_DeletePermCertificate l c =
     syscall (\<lambda>w. case nss w of
                     None \<Rightarrow> (Inl EINVAL, w)
                   | Some s \<Rightarrow>
                       if c \<notin> set (db_certs (snd s)) then (Inl ENOENT, w)
                       else (Inr (), log_ev (Ev_nss_delete c)
                               (nss_store l (fst s)
                                  ((snd s)\<lparr>db_certs := remove1 c (db_certs (snd s))\<rparr>) w)))"

definition PK11_ImportCert :: "nss_lib \<Rightarrow> cert \<Rightarrow> string \<Rightarrow> (errno + unit) prog" where
  "PK11_ImportCert l c nick =
     syscall (\<lambda>w. case nss w of
                     None \<Rightarrow> (Inl EINVAL, w)
                   | Some s \<Rightarrow>
                       (Inr (), log_ev (Ev_nss_import (c\<lparr>nickname := nick\<rparr>))
                          (nss_store l (fst s)
                             ((snd s)\<lparr>db_certs := db_certs (snd s) @ [c\<lparr>nickname := nick\<rparr>]\<rparr>)
                             w)))"

definition NSS_Shutdown :: "(errno + unit) prog" where
  "NSS_Shutdown = syscall (\<lambda>w. (Inr (), w\<lparr>nss := None\<rparr>))"

definition PR_Cleanup :: "(errno + unit) prog" where
  "PR_Cleanup = syscall (\<lambda>w. (Inr (), w))"

definition CERT_DecodeCertFromPackage :: "nss_lib \<Rightarrow> bytes \<Rightarrow> (errno + cert) prog" where
  "CERT_DecodeCertFromPackage l pem =
     syscall (\<lambda>w. case cert_decode l pem of
                     None \<Rightarrow> (Inl EINVAL, w)
                   | Some c \<Rightarrow> (Inr c, w))"

definition init_libnss :: "config \<Rightarrow> ino \<Rightarrow> unit prog" where
  "init_libnss cfg new_nssdb_dirfd =
     pseq (or_fatal (fchdir new_nssdb_dirfd) ''Failed to change directory'')
    (pseq (or_nss_fatal (NSS_InitReadWrite (lib cfg)) ''Failed to open NSS database'')
    (pseq (or_nss_fatal PK11_GetInternalKeySlot ''Failed to open NSS database slot'')
    (pbind PK11_IsFriendly (\<lambda>friendly.
     if \<not> friendly then pfail (FATAL ''NSS database requires authentication'')
     else preturn ()))))"

definition shutdown_libnss :: "unit prog" where
  "shutdown_libnss =
     pseq (or_nss_fatal NSS_Shutdown ''Failed to close NSS database'')
          (or_nss_fatal PR_Cleanup ''Failed to shut down NSPR library'')"

definition new_certificate :: "config \<Rightarrow> cert prog" where
  "new_certificate cfg =
     pseq (or_fatal alloc ''Failed to format path: cert_file'')
    (pbind (or_fatal (open_abs (acme_cert_dir @ ''/'' @ cert_hostname cfg @ ''.crt'')
                        [O_RDONLY])
              ''Failed to open file: cert_file'') (\<lambda>fd.
     pbind (or_fatal (fstat fd) ''Failed to read file info: cert_file'') (\<lambda>st.
     if st_size st \<le> 0 \<or> st_size st > SSIZE_MAX
       then pfail (FATAL ''File size invalid: cert_file'')
     else
     pseq (or_fatal alloc ''Memory allocation failed'')
    (pbind (or_fatal (read_fd fd (st_size st)) ''Failed to read file: cert_file'') (\<lambda>pem.
     if int (length pem) \<noteq> st_size st
       then pfail (FATAL ''Failed to read complete file: cert_file'')
     else
     pseq (or_fatal (close fd) ''Failed to close file: cert_file'')
          (or_nss_fatal (CERT_DecodeCertFromPackage (lib cfg) pem)
             ''Failed to parse certificate''))))))"

text \<open>Only the ways \<^verbatim>\<open>format_not_after\<close> can end the run matter, not its text.\<close>

definition format_not_after :: "cert \<Rightarrow> unit prog" where
  "format_not_after c =
     (if notAfter_type c = siUTCTime
      then (if \<not> notAfter_decodes c
            then pfail (NSS_FATAL ''Failed to decode ASN.1 time in certificate'')
            else preturn ())
      else if notAfter_type c = siGeneralizedTime
      then (if \<not> notAfter_decodes c
            then pfail (NSS_FATAL ''Failed to decode ASN.1 time in certificate'')
            else preturn ())
      else pfail (FATAL ''Unknown ASN.1 time type in certificate''))"

text \<open>The loop of \<^verbatim>\<open>remove_old_certs\<close> over the listed records, counting deletions.\<close>

primrec remove_certs_loop :: "config \<Rightarrow> cert list \<Rightarrow> nat \<Rightarrow> nat prog" where
  "remove_certs_loop cfg [] deleted = preturn deleted"
| "remove_certs_loop cfg (c # cs) deleted =
     pseq (if verbosity cfg = LOG_DEBUG then format_not_after c else preturn ())
    (if nickname c \<noteq> cert_hostname cfg then remove_certs_loop cfg cs deleted
     else
     pbind (SEC_DeletePermCertificate (lib cfg) c) (\<lambda>r.
     case r of
       Inl e \<Rightarrow>
         pseq (format_not_after c)
              (pfail (NSS_FATAL ''Failed to delete certificate from NSS database''))
     | Inr u \<Rightarrow> remove_certs_loop cfg cs (deleted + 1)))"

definition remove_old_certs :: "config \<Rightarrow> nat prog" where
  "remove_old_certs cfg =
     pbind (or_nss_fatal PK11_ListCertsInSlot
              ''Failed to read certificates from NSS database'') (\<lambda>list.
     remove_certs_loop cfg list 0)"

definition add_new_cert :: "config \<Rightarrow> cert \<Rightarrow> unit prog" where
  "add_new_cert cfg c =
     pseq (or_nss_fatal (PK11_ImportCert (lib cfg) c (cert_hostname cfg))
             ''Failed to add certificate to NSS database'')
          (format_not_after c)"

subsection \<open>main\<close>

definition set_effective_user :: "nat \<Rightarrow> nat \<Rightarrow> unit prog" where
  "set_effective_user uid gid =
     pseq (or_fatal (setegid gid) ''Failed to change effective GID'')
    (pseq (or_fatal (seteuid uid) ''Failed to change effective UID'')
    (pbind geteuid (\<lambda>u.
     if u \<noteq> uid then pfail (FATAL ''Effective UID not really changed'')
     else
     pbind getegid (\<lambda>g.
     if g \<noteq> gid then pfail (FATAL ''Effective GID not really changed'')
     else preturn ()))))"

text \<open>
  \<^verbatim>\<open>main\<close> after \<^verbatim>\<open>parse_args\<close>. \<open>fuel\<close> bounds the depth of the two directory
  walks.
\<close>

definition main :: "config \<Rightarrow> nat \<Rightarrow> unit prog" where
  "main cfg fuel =
     pbind (or_fatal (open_abs httpd_conf_dir [O_RDONLY, O_DIRECTORY])
              ''Failed to open directory: httpd_conf_dir'') (\<lambda>httpd_conf_dirfd.
     pbind (old_nssdb_dir httpd_conf_dirfd) (\<lambda>(old_nssdb_dirfd, linkst).
     pbind (new_nssdb_dir cfg httpd_conf_dirfd) (\<lambda>new_nssdb_dirfd.
     pseq (copy_nssdb_files cfg old_nssdb_dirfd new_nssdb_dirfd)
    (pbind geteuid (\<lambda>saved_uid.
     pbind getegid (\<lambda>saved_gid.
     pseq (set_effective_user (nss_uid cfg) (nss_gid cfg))
    (pseq (init_libnss cfg new_nssdb_dirfd)
    (pbind (new_certificate cfg) (\<lambda>c.
     pbind (remove_old_certs cfg) (\<lambda>deleted.
     pseq (add_new_cert cfg c)
    (pseq shutdown_libnss
    (pseq (set_effective_user saved_uid saved_gid)
    (pseq (copy_nssdb_dir fuel old_nssdb_dirfd new_nssdb_dirfd)
    (pseq (update_nssdb_symlink httpd_conf_dirfd linkst)
    (pseq (delete_old_nssdb_dir fuel httpd_conf_dirfd old_nssdb_dirfd)
    (pseq (or_fatal (close new_nssdb_dirfd) ''Failed to close directory: new_dbdir_name'')
    (pseq (or_fatal (close old_nssdb_dirfd) ''Failed to close directory: old_dbdir_name'')
          (or_fatal (close httpd_conf_dirfd)
             ''Failed to close directory: httpd_conf_dir''))))))))))))))))))"

section \<open>Basic facts\<close>

lemma pbind_preturn [simp]: "pbind (preturn x) f = f x"
  by (rule ext) (simp add: pbind_def preturn_def)

lemma pbind_pfail [simp]: "pbind (pfail e) f = pfail e"
  by (rule ext) (simp add: pbind_def pfail_def)

lemma pseq_preturn [simp]: "pseq (preturn x) n = n"
  by (simp add: pseq_def)

lemma pseq_pfail [simp]: "pseq (pfail e) n = pfail e"
  by (simp add: pseq_def)

lemma passert_True [simp]: "passert True msg = preturn ()"
  by (simp add: passert_def)

lemma passert_False [simp]: "passert False msg = pfail (ABORT msg)"
  by (simp add: passert_def)

lemma pbind_Inr: "m w = (Inr x, w1) \<Longrightarrow> pbind m f w = f x w1"
  by (simp add: pbind_def)

lemma pbind_Inl: "m w = (Inl e, w1) \<Longrightarrow> pbind m f w = (Inl e, w1)"
  by (simp add: pbind_def)

lemma pseq_Inr: "m w = (Inr x, w1) \<Longrightarrow> pseq m n w = n w1"
  by (simp add: pseq_def pbind_def)

lemma pseq_Inl: "m w = (Inl e, w1) \<Longrightarrow> pseq m n w = (Inl e, w1)"
  by (simp add: pseq_def pbind_def)

section \<open>The content copy of an empty source\<close>

text \<open>
  C10. For a source whose size is zero when it is opened, \<^verbatim>\<open>copy_file_contents\<close>
  returns at once: it makes no call at all (the world, with its schedule and its
  journal, is the one it was given, so nothing is allocated or written and the
  source is not examined again), and it returns normally when its precondition on
  \<open>path\<close> holds. The fatal error \<^verbatim>\<open>File changed during copy\<close> is raised only for
  a source whose initial size is strictly positive.
\<close>

theorem copy_file_contents_empty_source:
  "(st_size srcst = 0 \<longrightarrow>
      snd (copy_file_contents src dest path srcst w) = w \<and>
      (path \<noteq> [] \<and> hd path \<noteq> CHR ''/'' \<longrightarrow>
         fst (copy_file_contents src dest path srcst w) = Inr ())) \<and>
   (fst (copy_file_contents src dest path srcst w) = Inl (FATAL ''File changed during copy'')
      \<longrightarrow> 0 < st_size srcst)"
proof (intro conjI impI)
  assume z: "st_size srcst = 0"
  show "snd (copy_file_contents src dest path srcst w) = w"
    using z by (cases "path \<noteq> [] \<and> hd path \<noteq> CHR ''/''")
               (auto simp add: copy_file_contents_def passert_def preturn_def pfail_def)
next
  assume "st_size srcst = 0" and "path \<noteq> [] \<and> hd path \<noteq> CHR ''/''"
  then show "fst (copy_file_contents src dest path srcst w) = Inr ()"
    by (simp add: copy_file_contents_def passert_def preturn_def)
next
  assume f: "fst (copy_file_contents src dest path srcst w)
               = Inl (FATAL ''File changed during copy'')"
  show "0 < st_size srcst"
  proof (rule ccontr)
    assume "\<not> 0 < st_size srcst"
    then consider "st_size srcst = 0" | "st_size srcst < 0" by linarith
    then show False
    proof cases
      case 1
      with f show False
        by (cases "path \<noteq> [] \<and> hd path \<noteq> CHR ''/''")
           (auto simp add: copy_file_contents_def passert_def preturn_def pfail_def)
    next
      case 2
      with f show False
        by (cases "path \<noteq> [] \<and> hd path \<noteq> CHR ''/''")
           (auto simp add: copy_file_contents_def passert_def preturn_def pfail_def)
    qed
  qed
qed

section \<open>What the schedule can and cannot change\<close>

lemma env_write_fields [simp]:
  "sched (env_write p w) = sched w"
  "journal (env_write p w) = journal w"
  "euid (env_write p w) = euid w"
  "egid (env_write p w) = egid w"
  "umask (env_write p w) = umask w"
  "cwd (env_write p w) = cwd w"
  "abs_path (env_write p w) = abs_path w"
  "now_ts (env_write p w) = now_ts w"
  "now_tm (env_write p w) = now_tm w"
  "nss (env_write p w) = nss w"
  "new_dbdir_name (env_write p w) = new_dbdir_name w"
  "old_dbdir_name (env_write p w) = old_dbdir_name w"
  by (simp_all add: env_write_def split: option.splits)

lemma fold_env_write_fields [simp]:
  "sched (fold env_write ps w) = sched w"
  "journal (fold env_write ps w) = journal w"
  "euid (fold env_write ps w) = euid w"
  "egid (fold env_write ps w) = egid w"
  "umask (fold env_write ps w) = umask w"
  "cwd (fold env_write ps w) = cwd w"
  "abs_path (fold env_write ps w) = abs_path w"
  "now_ts (fold env_write ps w) = now_ts w"
  "now_tm (fold env_write ps w) = now_tm w"
  "nss (fold env_write ps w) = nss w"
  "new_dbdir_name (fold env_write ps w) = new_dbdir_name w"
  "old_dbdir_name (fold env_write ps w) = old_dbdir_name w"
  by (induction ps arbitrary: w; simp)+

lemma env_step_fields [simp]:
  "journal (snd (env_step w)) = journal w"
  "euid (snd (env_step w)) = euid w"
  "egid (snd (env_step w)) = egid w"
  "umask (snd (env_step w)) = umask w"
  "cwd (snd (env_step w)) = cwd w"
  "abs_path (snd (env_step w)) = abs_path w"
  "now_ts (snd (env_step w)) = now_ts w"
  "now_tm (snd (env_step w)) = now_tm w"
  "nss (snd (env_step w)) = nss w"
  "new_dbdir_name (snd (env_step w)) = new_dbdir_name w"
  "old_dbdir_name (snd (env_step w)) = old_dbdir_name w"
  by (simp_all add: env_step_def split: list.splits)

lemma env_step_sched [simp]: "sched (snd (env_step w)) = tl (sched w)"
  by (simp add: env_step_def split: list.splits)

text \<open>A symbolic link keeps its target whatever other processes do.\<close>

lemma env_write_lnk:
  "inodes w i = Some n \<Longrightarrow> i_kind n = Lnk t \<Longrightarrow>
   \<exists>n'. inodes (env_write p w) i = Some n' \<and> i_kind n' = Lnk t"
  by (cases "fst p = i") (auto simp: env_write_def split: option.splits)

lemma fold_env_write_lnk:
  "inodes w i = Some n \<Longrightarrow> i_kind n = Lnk t \<Longrightarrow>
   \<exists>n'. inodes (fold env_write ps w) i = Some n' \<and> i_kind n' = Lnk t"
proof (induction ps arbitrary: w n)
  case Nil
  then show ?case by simp
next
  case (Cons p ps)
  from env_write_lnk [OF Cons.prems] obtain n1
    where "inodes (env_write p w) i = Some n1" "i_kind n1 = Lnk t" by blast
  from Cons.IH [OF this] show ?case by simp
qed

lemma env_step_lnk:
  "inodes w i = Some n \<Longrightarrow> i_kind n = Lnk t \<Longrightarrow>
   \<exists>n'. inodes (snd (env_step w)) i = Some n' \<and> i_kind n' = Lnk t"
  using fold_env_write_lnk [of "w\<lparr>sched := tl (sched w)\<rparr>" i n t]
  by (auto simp: env_step_def split: list.splits)

text \<open>A schedule that only makes calls fail: no other process writes.\<close>

definition faults_only :: "world \<Rightarrow> bool" where
  "faults_only w = (\<forall>s \<in> set (sched w). env_writes s = [])"

lemma env_step_faults_only:
  "faults_only w \<Longrightarrow> snd (env_step w) = w\<lparr>sched := tl (sched w)\<rparr>"
  by (cases "sched w") (auto simp: env_step_def faults_only_def)

lemma faults_only_tl [simp]:
  "faults_only w \<Longrightarrow> faults_only (w\<lparr>sched := tl (sched w)\<rparr>)"
  by (cases "sched w") (auto simp: faults_only_def)

lemma env_step_quiet: "sched w = [] \<Longrightarrow> env_step w = (None, w)"
  by (simp add: env_step_def)

section \<open>Pre- and postconditions\<close>

text \<open>
  \<open>hoare P m Q E\<close>: started in a world where \<open>P\<close> holds, \<open>m\<close> ends either normally
  with a result and a world that satisfy \<open>Q\<close>, or abnormally in a world that
  satisfies \<open>E\<close>. Every way the process can stop is covered, so \<open>E\<close> also describes
  what a crash leaves behind.
\<close>

definition hoare ::
  "(world \<Rightarrow> bool) \<Rightarrow> 'a prog \<Rightarrow> ('a \<Rightarrow> world \<Rightarrow> bool) \<Rightarrow> (err \<Rightarrow> world \<Rightarrow> bool) \<Rightarrow> bool" where
  "hoare P m Q E =
     (\<forall>w. P w \<longrightarrow> (case m w of (Inl e, w') \<Rightarrow> E e w' | (Inr x, w') \<Rightarrow> Q x w'))"

lemma hoareI:
  "(\<And>w. P w \<Longrightarrow> (case m w of (Inl e, w') \<Rightarrow> E e w' | (Inr x, w') \<Rightarrow> Q x w'))
   \<Longrightarrow> hoare P m Q E"
  by (simp add: hoare_def)

lemma hoareD_Inr: "hoare P m Q E \<Longrightarrow> P w \<Longrightarrow> m w = (Inr x, w') \<Longrightarrow> Q x w'"
  by (auto simp: hoare_def)

lemma hoareD_Inl: "hoare P m Q E \<Longrightarrow> P w \<Longrightarrow> m w = (Inl e, w') \<Longrightarrow> E e w'"
  by (auto simp: hoare_def)

lemma hoare_weaken:
  "hoare P' m Q' E' \<Longrightarrow> (\<And>w. P w \<Longrightarrow> P' w) \<Longrightarrow> (\<And>x w. Q' x w \<Longrightarrow> Q x w)
   \<Longrightarrow> (\<And>e w. E' e w \<Longrightarrow> E e w) \<Longrightarrow> hoare P m Q E"
  unfolding hoare_def by (fastforce split: prod.splits sum.splits)

lemma hoare_pre: "hoare P' m Q E \<Longrightarrow> (\<And>w. P w \<Longrightarrow> P' w) \<Longrightarrow> hoare P m Q E"
  by (erule hoare_weaken) auto

lemma hoare_preturn: "(\<And>w. P w \<Longrightarrow> Q x w) \<Longrightarrow> hoare P (preturn x) Q E"
  by (simp add: hoare_def preturn_def)

lemma hoare_pfail: "(\<And>w. P w \<Longrightarrow> E e w) \<Longrightarrow> hoare P (pfail e) Q E"
  by (simp add: hoare_def pfail_def)

lemma hoare_pbind:
  "hoare P m R E \<Longrightarrow> (\<And>x. hoare (R x) (f x) Q E) \<Longrightarrow> hoare P (pbind m f) Q E"
  unfolding hoare_def pbind_def by (fastforce split: prod.splits sum.splits)

lemma hoare_pseq:
  "hoare P m (\<lambda>_. R) E \<Longrightarrow> hoare R n Q E \<Longrightarrow> hoare P (pseq m n) Q E"
  unfolding pseq_def by (rule hoare_pbind)

lemma hoare_or_fatal:
  "hoare P m (\<lambda>r w. case r of Inl e \<Rightarrow> E (FATAL msg) w | Inr x \<Rightarrow> Q x w) E
   \<Longrightarrow> hoare P (or_fatal m msg) Q E"
  unfolding or_fatal_def
  by (rule hoare_pbind, assumption)
     (auto simp: hoare_def pfail_def preturn_def split: sum.splits)

lemma hoare_or_nss_fatal:
  "hoare P m (\<lambda>r w. case r of Inl e \<Rightarrow> E (NSS_FATAL msg) w | Inr x \<Rightarrow> Q x w) E
   \<Longrightarrow> hoare P (or_nss_fatal m msg) Q E"
  unfolding or_nss_fatal_def
  by (rule hoare_pbind, assumption)
     (auto simp: hoare_def pfail_def preturn_def split: sum.splits)

lemma hoare_syscall:
  assumes prem: "\<And>w. P w \<Longrightarrow>
      (case fst (env_step w) of
         Some e \<Rightarrow> Q (Inl e) (snd (env_step w))
       | None \<Rightarrow> (case op (snd (env_step w)) of (r, w2) \<Rightarrow> Q r w2))"
  shows "hoare P (syscall op) Q E"
proof (rule hoareI)
  fix w assume "P w"
  from prem [OF this] have h: "case fst (env_step w) of
         Some e \<Rightarrow> Q (Inl e) (snd (env_step w))
       | None \<Rightarrow> (case op (snd (env_step w)) of (r, w2) \<Rightarrow> Q r w2)" .
  obtain f w1 where es: "env_step w = (f, w1)" by (cases "env_step w")
  show "case syscall op w of (Inl e, w') \<Rightarrow> E e w' | (Inr x, w') \<Rightarrow> Q x w'"
  proof (cases f)
    case None
    with h es show ?thesis by (simp add: syscall_def split: prod.splits)
  next
    case (Some e)
    with h es show ?thesis by (simp add: syscall_def)
  qed
qed

lemma hoare_reader:
  "(\<And>a. hoare (\<lambda>w. P w \<and> g w = a) (f a) Q E) \<Longrightarrow> hoare P (\<lambda>w. f (g w) w) Q E"
  by (auto simp: hoare_def)

lemma hoare_if:
  "(b \<Longrightarrow> hoare P m Q E) \<Longrightarrow> (\<not> b \<Longrightarrow> hoare P n Q E) \<Longrightarrow> hoare P (if b then m else n) Q E"
  by simp

lemma hoare_passert:
  "(\<And>w. P w \<Longrightarrow> b \<Longrightarrow> Q () w) \<Longrightarrow> (\<And>w. P w \<Longrightarrow> \<not> b \<Longrightarrow> E (ABORT msg) w)
   \<Longrightarrow> hoare P (passert b msg) Q E"
  by (simp add: hoare_def passert_def preturn_def pfail_def)

lemma hoare_False: "hoare (\<lambda>w. False) m Q E"
  by (simp add: hoare_def)

lemma syscall_cases:
  assumes "syscall op w = (r, w')"
  obtains (failed) e where "fst (env_step w) = Some e" "r = Inr (Inl e)" "w' = snd (env_step w)"
        | (ran) x where "fst (env_step w) = None" "op (snd (env_step w)) = (x, w')" "r = Inr x"
  using assms unfolding syscall_def
  by (cases "env_step w"; cases "fst (env_step w)")
     (auto split: prod.splits)

section \<open>The certificate store update\<close>

lemma format_not_after_world: "format_not_after c w = (r, w') \<Longrightarrow> w' = w"
  by (auto simp: format_not_after_def pfail_def preturn_def split: if_splits)

lemma SEC_DeletePermCertificate_ok:
  assumes "SEC_DeletePermCertificate l c w = (Inr (Inr u), w')" and "nss w = Some (i, db)"
  shows "nss w' = Some (i, db\<lparr>db_certs := remove1 c (db_certs db)\<rparr>)"
  using assms(1) unfolding SEC_DeletePermCertificate_def
proof (cases rule: syscall_cases)
  case (failed e)
  then show ?thesis by simp
next
  case (ran x)
  with assms(2) show ?thesis
    by (auto simp: nss_store_def log_ev_def set_inode_def split: if_splits option.splits)
qed

lemma SEC_DeletePermCertificate_result:
  "SEC_DeletePermCertificate l c w = (r, w') \<Longrightarrow> \<exists>x. r = Inr x"
  unfolding SEC_DeletePermCertificate_def by (erule syscall_cases) auto

lemma PK11_ImportCert_ok:
  assumes "PK11_ImportCert l c nick w = (Inr (Inr u), w')" and "nss w = Some (i, db)"
  shows "nss w' = Some (i, db\<lparr>db_certs := db_certs db @ [c\<lparr>nickname := nick\<rparr>]\<rparr>)"
  using assms(1) unfolding PK11_ImportCert_def
proof (cases rule: syscall_cases)
  case (failed e)
  then show ?thesis by simp
next
  case (ran x)
  with assms(2) show ?thesis
    by (auto simp: nss_store_def log_ev_def set_inode_def split: if_splits option.splits)
qed

lemma PK11_ListCertsInSlot_ok:
  assumes "PK11_ListCertsInSlot w = (Inr (Inr cs), w')" and "nss w = Some (i, db)"
  shows "cs = db_certs db \<and> nss w' = Some (i, db)"
  using assms(1) unfolding PK11_ListCertsInSlot_def
proof (cases rule: syscall_cases)
  case (failed e)
  then show ?thesis by simp
next
  case (ran x)
  with assms(2) show ?thesis by auto
qed

text \<open>
  The loop invariant: the records already visited that were kept, followed by the
  records still to visit.
\<close>

lemma remove_certs_loop_ok:
  assumes "remove_certs_loop cfg cs d w = (Inr d', w')"
    and "nss w = Some (i, db)"
    and "db_certs db = kept @ cs"
    and "\<forall>k \<in> set kept. nickname k \<noteq> cert_hostname cfg"
  shows "nss w' = Some (i, db\<lparr>db_certs :=
                      kept @ filter (\<lambda>r. nickname r \<noteq> cert_hostname cfg) cs\<rparr>)
         \<and> d' = d + length (filter (\<lambda>r. nickname r = cert_hostname cfg) cs)"
  using assms
proof (induction cs arbitrary: d w db kept)
  case Nil
  then show ?case by (simp add: preturn_def)
next
  case (Cons c cs)
  let ?dbg = "if verbosity cfg = LOG_DEBUG then format_not_after c else preturn ()"
  obtain r0 w0 where dbg: "?dbg w = (r0, w0)" by (cases "?dbg w")
  have w0: "w0 = w"
    using dbg by (auto simp: preturn_def dest: format_not_after_world split: if_splits)
  from Cons.prems(1) dbg obtain u0 where r0: "r0 = Inr u0"
    by (cases r0) (auto simp: pseq_def pbind_def)
  show ?case
  proof (cases "nickname c = cert_hostname cfg")
    case False
    with Cons.prems(1) dbg r0 w0
    have run: "remove_certs_loop cfg cs d w = (Inr d', w')"
      by (simp add: pseq_def pbind_def)
    have "nss w' = Some (i, db\<lparr>db_certs :=
              (kept @ [c]) @ filter (\<lambda>r. nickname r \<noteq> cert_hostname cfg) cs\<rparr>)
          \<and> d' = d + length (filter (\<lambda>r. nickname r = cert_hostname cfg) cs)"
      using Cons.prems(3,4) False
      by (intro Cons.IH [OF run Cons.prems(2)]) auto
    with False show ?thesis by simp
  next
    case True
    obtain r1 w1 where del: "SEC_DeletePermCertificate (lib cfg) c w = (r1, w1)"
      by (cases "SEC_DeletePermCertificate (lib cfg) c w")
    from SEC_DeletePermCertificate_result [OF del] obtain x where r1: "r1 = Inr x" by blast
    have notkept: "c \<notin> set kept" using Cons.prems(4) True by auto
    show ?thesis
    proof (cases x)
      case (Inl e)
      obtain r2 w2 where fna: "format_not_after c w1 = (r2, w2)"
        by (cases "format_not_after c w1")
      from Cons.prems(1) dbg r0 w0 True del r1 Inl fna show ?thesis
        by (cases r2) (simp_all add: pseq_def pbind_def pfail_def)
    next
      case (Inr u)
      with Cons.prems(1) dbg r0 w0 True del r1
      have run: "remove_certs_loop cfg cs (d + 1) w1 = (Inr d', w')"
        by (simp add: pseq_def pbind_def)
      from del r1 Inr have "nss w1 = Some (i, db\<lparr>db_certs := remove1 c (db_certs db)\<rparr>)"
        by (intro SEC_DeletePermCertificate_ok [OF _ Cons.prems(2)]) simp
      with Cons.prems(3) notkept
      have n1: "nss w1 = Some (i, db\<lparr>db_certs := kept @ cs\<rparr>)"
        by (simp add: remove1_append)
      from Cons.IH [OF run n1 _ Cons.prems(4)] True show ?thesis by simp
    qed
  qed
qed

text \<open>
  C1. When \<^verbatim>\<open>remove_old_certs\<close> and \<^verbatim>\<open>add_new_cert\<close> both return, whatever other
  processes did meanwhile, the open database holds exactly one record whose nickname
  is the target hostname, and its content is the input certificate; the records with
  any other nickname are the ones that were there before, in their order; and the
  deletions counted are all the earlier records with that nickname.
\<close>

theorem store_update_exact:
  assumes "nss w = Some (i, db)"
    and "remove_old_certs cfg w = (Inr deleted, w1)"
    and "add_new_cert cfg c w1 = (Inr (), w2)"
  shows "\<exists>db'. nss w2 = Some (i, db')
           \<and> filter (\<lambda>r. nickname r = cert_hostname cfg) (db_certs db')
               = [c\<lparr>nickname := cert_hostname cfg\<rparr>]
           \<and> filter (\<lambda>r. nickname r \<noteq> cert_hostname cfg) (db_certs db')
               = filter (\<lambda>r. nickname r \<noteq> cert_hostname cfg) (db_certs db)
           \<and> set (db_certs db')
               = (set (db_certs db) - {r. nickname r = cert_hostname cfg})
                   \<union> {c\<lparr>nickname := cert_hostname cfg\<rparr>}
           \<and> deleted = length (filter (\<lambda>r. nickname r = cert_hostname cfg) (db_certs db))"
proof -
  let ?keep = "\<lambda>r. nickname r \<noteq> cert_hostname cfg"
  obtain r0 w0 where ls: "PK11_ListCertsInSlot w = (r0, w0)"
    by (cases "PK11_ListCertsInSlot w")
  from assms(2) ls obtain cs where r0: "r0 = Inr (Inr cs)"
    and loop: "remove_certs_loop cfg cs 0 w0 = (Inr deleted, w1)"
    by (cases r0; cases "projr r0")
       (auto simp: remove_old_certs_def or_nss_fatal_def pbind_def pfail_def preturn_def
             split: sum.splits)
  from PK11_ListCertsInSlot_ok [OF _ assms(1)] ls r0
  have cs: "cs = db_certs db" and n0: "nss w0 = Some (i, db)" by auto
  from remove_certs_loop_ok [OF loop n0, of "[]"] cs
  have n1: "nss w1 = Some (i, db\<lparr>db_certs := filter ?keep (db_certs db)\<rparr>)"
    and cnt: "deleted = length (filter (\<lambda>r. nickname r = cert_hostname cfg) (db_certs db))"
    by auto
  obtain r2 w3 where imp: "PK11_ImportCert (lib cfg) c (cert_hostname cfg) w1 = (r2, w3)"
    by (cases "PK11_ImportCert (lib cfg) c (cert_hostname cfg) w1")
  from assms(3) imp obtain u where r2: "r2 = Inr (Inr u)"
    and fna: "format_not_after c w3 = (Inr (), w2)"
    by (cases r2; cases "projr r2")
       (auto simp: add_new_cert_def or_nss_fatal_def pseq_def pbind_def pfail_def preturn_def
             split: sum.splits)
  from format_not_after_world [OF fna] have "w2 = w3" .
  with PK11_ImportCert_ok [OF _ n1] imp r2
  have n2: "nss w2 = Some (i, db\<lparr>db_certs :=
              filter ?keep (db_certs db) @ [c\<lparr>nickname := cert_hostname cfg\<rparr>]\<rparr>)"
    by simp
  show ?thesis
    by (rule exI [of _ "db\<lparr>db_certs :=
              filter ?keep (db_certs db) @ [c\<lparr>nickname := cert_hostname cfg\<rparr>]\<rparr>"])
       (use n2 cnt in auto)
qed

section \<open>An example machine\<close>

text \<open>
  The configuration directory holds the alias, which names the old generation
  \<^verbatim>\<open>alias-20230101000000\<close>; the old generation holds the three store files, a
  subdirectory with one file, and a symbolic link. The store library of the example
  keeps one record per byte of \<^verbatim>\<open>cert8.db\<close>: the byte \<^verbatim>\<open>w\<close> is a record for
  \<^verbatim>\<open>www.example.com\<close>, any other byte a record named by that byte.
\<close>

definition ex_inode :: "kind \<Rightarrow> nat \<Rightarrow> nat \<Rightarrow> mode_t \<Rightarrow> int \<Rightarrow> inode" where
  "ex_inode k u g p t =
     \<lparr> i_kind = k, i_uid = u, i_gid = g, i_perm = p,
       i_atim = \<lparr>tv_sec = t, tv_nsec = 1\<rparr>, i_mtim = \<lparr>tv_sec = t, tv_nsec = 2\<rparr> \<rparr>"

definition ex_fs :: "(ino \<times> inode) list" where
  "ex_fs =
     [(1, ex_inode (Dir [(''alias'', 2), (''alias-20230101000000'', 3)]) 0 0 0x1ED 10),
      (2, ex_inode (Lnk ''alias-20230101000000'') 7 8 0x1FF 11),
      (3, ex_inode (Dir [(''cert8.db'', 4), (''key3.db'', 5), (''secmod.db'', 6),
                         (''pkcs11'', 7), (''lnk'', 9)]) 0 48 0x1E8 12),
      (4, ex_inode (Reg ''awbw'') 48 5 0x1A4 13),
      (5, ex_inode (Reg ''k'') 48 5 0x180 14),
      (6, ex_inode (Reg []) 48 5 0x180 15),
      (7, ex_inode (Dir [(''file'', 8)]) 5 6 0x1ED 16),
      (8, ex_inode (Reg ''hello'') 5 6 0x1A4 17),
      (9, ex_inode (Lnk ''pkcs11'') 3 4 0x1FF 18),
      (10, ex_inode (Reg ''PEM'') 0 0 0x1A4 19)]"

definition ex_cert :: "string \<Rightarrow> bytes \<Rightarrow> cert" where
  "ex_cert nick d =
     \<lparr> nickname = nick, der = d, notAfter_type = siUTCTime, notAfter_decodes = True \<rparr>"

definition ex_lib :: nss_lib where
  "ex_lib =
     \<lparr> db_decode = (\<lambda>bs. Some \<lparr> db_certs =
            map (\<lambda>b. ex_cert (if b = CHR ''w'' then ''www.example.com'' else [b]) [b]) bs,
          db_friendly = True \<rparr>),
       db_encode = (\<lambda>db.
          map (\<lambda>c. if nickname c = ''www.example.com'' then CHR ''w'' else hd (nickname c))
            (db_certs db)),
       cert_decode = (\<lambda>pem. Some (ex_cert [] pem)) \<rparr>"

definition ex_cfg :: config where
  "ex_cfg = \<lparr> cert_hostname = ''www.example.com'', nss_uid = 48, nss_gid = 48,
              verbosity = 5, lib = ex_lib \<rparr>"

definition ex_tm :: tm where
  "ex_tm = \<lparr> tm_sec = 7, tm_min = 8, tm_hour = 9, tm_mday = 30, tm_mon = 9, tm_year = 126 \<rparr>"

definition ex_world :: "step list \<Rightarrow> world" where
  "ex_world ss =
     \<lparr> inodes = map_of ex_fs, next_ino = 11, sched = ss, journal = [],
       euid = 0, egid = 0, umask = 0x12, cwd = 1,
       abs_path = map_of [(''/etc/httpd'', 1), (''/var/lib/acme/www.example.com.crt'', 10)],
       now_ts = \<lparr>tv_sec = 1000, tv_nsec = 0\<rparr>, now_tm = ex_tm,
       nss = None, new_dbdir_name = [], old_dbdir_name = [] \<rparr>"

definition ex_ok :: step where
  "ex_ok = \<lparr> env_writes = [], fault = None \<rparr>"

definition ex_db :: nss_db where
  "ex_db = \<lparr> db_certs = [ex_cert ''a'' ''a'', ex_cert ''www.example.com'' ''w'',
                         ex_cert ''b'' ''b'', ex_cert ''www.example.com'' ''w''],
             db_friendly = True \<rparr>"

lemmas kernel_defs =
  syscall_def env_step_def env_write_def with_inode_def with_dir_def set_inode_def
  log_ev_def add_entry_def fresh_inode_def open_inode_def wants_write_def
  openat_def open_abs_def open_proc_fd_def fstat_def stat_of_def readlinkat_def close_def
  mkdirat_def symlinkat_def fchown_def fchmod_def futimens_def
  fallocate_def mmap_def munmap_def memcpy_map_def pages_def file_bytes_def zeros_def
  renameat_def rename_entries_def unlinkat_def is_dir_ino_def is_empty_dir_def
  fdopendir_def readdir_def closedir_def alloc_def read_fd_def fchdir_def
  seteuid_def setegid_def geteuid_def getegid_def gmtime_now_def
  get_old_dbdir_name_def get_new_dbdir_name_def set_old_dbdir_name_def
  set_new_dbdir_name_def
  or_fatal_def or_nss_fatal_def pbind_def pseq_def preturn_def pfail_def passert_def

lemmas nss_defs =
  NSS_InitReadWrite_def PK11_GetInternalKeySlot_def PK11_IsFriendly_def
  PK11_ListCertsInSlot_def nss_store_def SEC_DeletePermCertificate_def
  PK11_ImportCert_def NSS_Shutdown_def PR_Cleanup_def CERT_DecodeCertFromPackage_def
  format_not_after_def

lemmas ex_defs =
  ex_inode_def ex_fs_def ex_cert_def ex_lib_def ex_cfg_def ex_tm_def ex_world_def
  ex_ok_def ex_db_def

theorem store_update_exact_witness:
  "nss ((ex_world [])\<lparr>nss := Some (4, ex_db)\<rparr>) = Some (4, ex_db)
   \<and> fst (remove_old_certs ex_cfg ((ex_world [])\<lparr>nss := Some (4, ex_db)\<rparr>)) = Inr 2
   \<and> (\<exists>db'. nss (snd (add_new_cert ex_cfg (ex_cert [] ''PEM'')
                  (snd (remove_old_certs ex_cfg ((ex_world [])\<lparr>nss := Some (4, ex_db)\<rparr>)))))
                = Some (4, db')
         \<and> db_certs db' = [ex_cert ''a'' ''a'', ex_cert ''b'' ''b'',
                             ex_cert ''www.example.com'' ''PEM''])"
proof -
  let ?w = "(ex_world [])\<lparr>nss := Some (4, ex_db)\<rparr>"
  let ?w1 = "snd (remove_old_certs ex_cfg ?w)"
  let ?w2 = "snd (add_new_cert ex_cfg (ex_cert [] ''PEM'') ?w1)"
  have a: "nss ?w = Some (4, ex_db)" by simp
  have b: "remove_old_certs ex_cfg ?w = (Inr 2, ?w1)"
    by (simp add: remove_old_certs_def kernel_defs nss_defs ex_defs LOG_DEBUG_def)
  have c: "add_new_cert ex_cfg (ex_cert [] ''PEM'') ?w1 = (Inr (), ?w2)"
    by (simp add: add_new_cert_def remove_old_certs_def kernel_defs nss_defs ex_defs
          LOG_DEBUG_def)
  from store_update_exact [OF a b c] obtain db' where
    n: "nss ?w2 = Some (4, db')"
    and h: "filter (\<lambda>r. nickname r = cert_hostname ex_cfg) (db_certs db')
              = [(ex_cert [] ''PEM'')\<lparr>nickname := cert_hostname ex_cfg\<rparr>]"
    and k: "filter (\<lambda>r. nickname r \<noteq> cert_hostname ex_cfg) (db_certs db')
              = filter (\<lambda>r. nickname r \<noteq> cert_hostname ex_cfg) (db_certs ex_db)"
    by blast
  have e: "nss ?w2 = Some (4, ex_db\<lparr>db_certs := [ex_cert ''a'' ''a'', ex_cert ''b'' ''b'',
                             ex_cert ''www.example.com'' ''PEM'']\<rparr>)"
    by (simp add: add_new_cert_def remove_old_certs_def kernel_defs nss_defs ex_defs
          LOG_DEBUG_def)
  from n e have "db' = ex_db\<lparr>db_certs := [ex_cert ''a'' ''a'', ex_cert ''b'' ''b'',
                             ex_cert ''www.example.com'' ''PEM'']\<rparr>"
    by simp
  then have d: "db_certs db' = [ex_cert ''a'' ''a'', ex_cert ''b'' ''b'',
                             ex_cert ''www.example.com'' ''PEM'']"
    by simp
  have f: "fst (remove_old_certs ex_cfg ?w) = Inr 2"
    using arg_cong [OF b, of fst] by (simp only: fst_conv)
  from n d have "\<exists>db'. nss ?w2 = Some (4, db')
         \<and> db_certs db' = [ex_cert ''a'' ''a'', ex_cert ''b'' ''b'',
                             ex_cert ''www.example.com'' ''PEM'']"
    by blast
  with a f show ?thesis by blast
qed

theorem copy_file_contents_empty_source_witness:
  "st_size (stat_of (ex_inode (Reg []) 48 5 0x180 15)) = 0
   \<and> copy_file_contents 6 5 ''secmod.db'' (stat_of (ex_inode (Reg []) 48 5 0x180 15))
         (ex_world []) = (Inr (), ex_world [])
   \<and> fst (copy_file_contents 4 6 ''cert8.db'' (stat_of (ex_inode (Reg ''awbw'') 48 5 0x1A4 13))
         (ex_world [ex_ok, ex_ok, ex_ok, ex_ok,
            \<lparr>env_writes = [(4, ex_inode (Reg ''awbwc'') 48 5 0x1A4 14)], fault = None\<rparr>]))
       = Inl (FATAL ''File changed during copy'')
   \<and> 0 < st_size (stat_of (ex_inode (Reg ''awbw'') 48 5 0x1A4 13))"
proof -
  let ?st6 = "stat_of (ex_inode (Reg []) 48 5 0x180 15)"
  let ?st4 = "stat_of (ex_inode (Reg ''awbw'') 48 5 0x1A4 13)"
  let ?race = "ex_world [ex_ok, ex_ok, ex_ok, ex_ok,
            \<lparr>env_writes = [(4, ex_inode (Reg ''awbwc'') 48 5 0x1A4 14)], fault = None\<rparr>]"
  have z: "st_size ?st6 = 0" by (simp add: stat_of_def ex_inode_def)
  have p: "''secmod.db'' \<noteq> [] \<and> hd ''secmod.db'' \<noteq> CHR ''/''" by simp
  from copy_file_contents_empty_source [of ?st6 6 5 "''secmod.db''" "ex_world []"] z p
  have "snd (copy_file_contents 6 5 ''secmod.db'' ?st6 (ex_world [])) = ex_world []"
    and "fst (copy_file_contents 6 5 ''secmod.db'' ?st6 (ex_world [])) = Inr ()"
    by blast+
  then have a: "copy_file_contents 6 5 ''secmod.db'' ?st6 (ex_world []) = (Inr (), ex_world [])"
    by (metis prod.collapse)
  have r: "fst (copy_file_contents 4 6 ''cert8.db'' ?st4 ?race)
             = Inl (FATAL ''File changed during copy'')"
    by (simp add: copy_file_contents_def kernel_defs ex_defs SSIZE_MAX_def)
  from copy_file_contents_empty_source [of ?st4 4 6 "''cert8.db''" ?race] r
  have s: "0 < st_size ?st4" by blast
  from z a r s show ?thesis by blast
qed

section \<open>Parts of the world a computation leaves alone\<close>

definition keeps :: "(world \<Rightarrow> 'b) \<Rightarrow> 'a prog \<Rightarrow> bool" where
  "keeps f m = (\<forall>w. f (snd (m w)) = f w)"

lemma keepsD: "keeps f m \<Longrightarrow> f (snd (m w)) = f w"
  by (simp add: keeps_def)

lemma keepsD2: "keeps f m \<Longrightarrow> m w = (r, w') \<Longrightarrow> f w' = f w"
  using keepsD [of f m w] by simp

lemma keeps_preturn [intro!]: "keeps f (preturn x)"
  by (simp add: keeps_def preturn_def)

lemma keeps_pfail [intro!]: "keeps f (pfail e)"
  by (simp add: keeps_def pfail_def)

lemma keeps_pbind [intro!]:
  assumes "keeps f m" and "\<And>x. keeps f (g x)"
  shows "keeps f (pbind m g)"
  unfolding keeps_def
proof
  fix w
  obtain r w1 where mw: "m w = (r, w1)" by (cases "m w")
  from keepsD2 [OF assms(1) mw] have 1: "f w1 = f w" .
  show "f (snd (pbind m g w)) = f w"
  proof (cases r)
    case (Inl e)
    with mw 1 show ?thesis by (simp add: pbind_def)
  next
    case (Inr x)
    with mw 1 keepsD [OF assms(2), of x w1] show ?thesis by (simp add: pbind_def)
  qed
qed

lemma keeps_pseq [intro!]: "keeps f m \<Longrightarrow> keeps f n \<Longrightarrow> keeps f (pseq m n)"
  unfolding pseq_def by (rule keeps_pbind)

lemma keeps_or_fatal [intro!]: "keeps f m \<Longrightarrow> keeps f (or_fatal m msg)"
  unfolding or_fatal_def by (rule keeps_pbind) (auto split: sum.splits)

lemma keeps_or_nss_fatal [intro!]: "keeps f m \<Longrightarrow> keeps f (or_nss_fatal m msg)"
  unfolding or_nss_fatal_def by (rule keeps_pbind) (auto split: sum.splits)

lemma keeps_passert [intro!]: "keeps f (passert b msg)"
  by (auto simp: passert_def)

lemma keeps_reader: "(\<And>a. keeps f (g a)) \<Longrightarrow> keeps f (\<lambda>w. g (h w) w)"
  by (simp add: keeps_def)

lemma keeps_if [intro!]: "(b \<Longrightarrow> keeps f m) \<Longrightarrow> (\<not> b \<Longrightarrow> keeps f n) \<Longrightarrow> keeps f (if b then m else n)"
  by simp

lemma keeps_case_sum [intro!]:
  "(\<And>a. keeps f (l a)) \<Longrightarrow> (\<And>b. keeps f (r b)) \<Longrightarrow> keeps f (case s of Inl a \<Rightarrow> l a | Inr b \<Rightarrow> r b)"
  by (cases s) auto

lemma keeps_case_prod [intro!]:
  "(\<And>a b. keeps f (g a b)) \<Longrightarrow> keeps f (case p of (a, b) \<Rightarrow> g a b)"
  by (cases p) auto

lemma keeps_let [intro!]: "keeps f (g v) \<Longrightarrow> keeps f (let x = v in g x)"
  by simp

lemma keeps_syscall:
  assumes "\<And>w. f (snd (env_step w)) = f w" and "\<And>w. f (snd (op w)) = f w"
  shows "keeps f (syscall op)"
  unfolding keeps_def
proof
  fix w
  obtain e w1 where es: "env_step w = (e, w1)" by (cases "env_step w")
  with assms(1) [of w] have 1: "f w1 = f w" by simp
  show "f (snd (syscall op w)) = f w"
  proof (cases e)
    case None
    with es 1 assms(2) [of w1] show ?thesis
      by (cases "op w1") (simp add: syscall_def)
  next
    case (Some a)
    with es 1 show ?thesis by (simp add: syscall_def)
  qed
qed

lemma keeps_pforeach [intro!]: "(\<And>x. keeps f (body x)) \<Longrightarrow> keeps f (pforeach xs body)"
  by (induction xs) auto

lemma with_inode_keeps:
  "(\<And>n w. f (snd (g n w)) = f w) \<Longrightarrow> f (snd (with_inode fd g w)) = f w"
  by (simp add: with_inode_def split: option.splits)

lemma with_dir_keeps:
  "(\<And>d es w. f (snd (g d es w)) = f w) \<Longrightarrow> f (snd (with_dir fd g w)) = f w"
  unfolding with_dir_def
  by (rule with_inode_keeps) (simp split: kind.splits)

text \<open>
  A view of the world that no file system call can change: it does not look at the
  inode table, the allocation counter, the journal or the schedule.
\<close>

definition fs_blind :: "(world \<Rightarrow> 'b) \<Rightarrow> bool" where
  "fs_blind f = (\<forall>w i j l s. f (w\<lparr>inodes := i, next_ino := j, journal := l, sched := s\<rparr>) = f w)"

lemma fs_blindD:
  assumes "fs_blind f"
    and "euid w' = euid w" "egid w' = egid w" "umask w' = umask w" "cwd w' = cwd w"
    and "abs_path w' = abs_path w" "now_ts w' = now_ts w" "now_tm w' = now_tm w"
    and "nss w' = nss w" "new_dbdir_name w' = new_dbdir_name w"
    and "old_dbdir_name w' = old_dbdir_name w" "world.more w' = world.more w"
  shows "f w' = f w"
proof -
  have "w' = w\<lparr>inodes := inodes w', next_ino := next_ino w', journal := journal w',
                sched := sched w'\<rparr>"
    using assms(2-) by (intro world.equality) simp_all
  with assms(1) show ?thesis unfolding fs_blind_def by metis
qed

lemma fs_blind_fields [simp]:
  "fs_blind euid" "fs_blind egid" "fs_blind umask" "fs_blind cwd" "fs_blind abs_path"
  "fs_blind now_ts" "fs_blind now_tm" "fs_blind nss" "fs_blind new_dbdir_name"
  "fs_blind old_dbdir_name"
  by (simp_all add: fs_blind_def)

lemma env_write_more [simp]: "world.more (env_write p w) = world.more w"
  by (simp add: env_write_def split: option.splits)

lemma fold_env_write_more [simp]: "world.more (fold env_write ps w) = world.more w"
  by (induction ps arbitrary: w) simp_all

lemma env_step_more [simp]: "world.more (snd (env_step w)) = world.more w"
  by (simp add: env_step_def split: list.splits)

lemma fs_blind_env_step: "fs_blind f \<Longrightarrow> f (snd (env_step w)) = f w"
  by (erule fs_blindD) simp_all

lemma fs_blind_ops:
  assumes "fs_blind f"
  shows "f (log_ev e w) = f w"
    and "f (set_inode i n w) = f w"
    and "f (add_entry d dn es nm n w) = f w"
    and "f (snd (open_inode i fl w)) = f w"
  by (rule fs_blindD [OF assms];
      simp add: log_ev_def set_inode_def add_entry_def open_inode_def
           split: option.splits kind.splits)+

lemma keeps_kernel:
  assumes "fs_blind f"
  shows "keeps f (openat d n fl m)"
    and "keeps f (open_abs p fl)"
    and "keeps f (open_proc_fd fd fl)"
    and "keeps f (fstat fd)"
    and "keeps f (readlinkat fd k)"
    and "keeps f (close fd)"
    and "keeps f (mkdirat d n m)"
    and "keeps f (symlinkat t d n)"
    and "keeps f (fchown fd u g)"
    and "keeps f (fchmod fd m)"
    and "keeps f (futimens fd ta tb)"
    and "keeps f (fallocate fd len)"
    and "keeps f (mmap fd len)"
    and "keeps f (munmap fd len)"
    and "keeps f (renameat d n n')"
    and "keeps f (unlinkat d n rm)"
    and "keeps f (fdopendir fd)"
    and "keeps f (readdir ns)"
    and "keeps f closedir"
    and "keeps f alloc"
    and "keeps f (read_fd fd len)"
  unfolding openat_def open_abs_def open_proc_fd_def fstat_def readlinkat_def close_def
    mkdirat_def symlinkat_def fchown_def fchmod_def futimens_def fallocate_def mmap_def
    munmap_def renameat_def unlinkat_def fdopendir_def readdir_def closedir_def alloc_def
    read_fd_def
  by (rule keeps_syscall, rule fs_blind_env_step [OF assms],
      (rule with_dir_keeps with_inode_keeps)?,
      simp add: fs_blind_ops [OF assms] split: option.splits kind.splits)+

lemma keeps_memcpy_map: "fs_blind f \<Longrightarrow> keeps f (memcpy_map dest src len)"
  by (simp add: keeps_def memcpy_map_def fs_blind_ops split: option.splits)

section \<open>The errors a computation can end with\<close>

definition errors_in :: "err set \<Rightarrow> 'a prog \<Rightarrow> bool" where
  "errors_in S m = (\<forall>w e w'. m w = (Inl e, w') \<longrightarrow> e \<in> S)"

lemma errors_inD: "errors_in S m \<Longrightarrow> m w = (Inl e, w') \<Longrightarrow> e \<in> S"
  by (auto simp: errors_in_def)

lemma errors_in_preturn [intro!]: "errors_in S (preturn x)"
  by (simp add: errors_in_def preturn_def)

lemma errors_in_pfail [intro!]: "e \<in> S \<Longrightarrow> errors_in S (pfail e)"
  by (simp add: errors_in_def pfail_def)

lemma errors_in_pbind [intro!]:
  "errors_in S m \<Longrightarrow> (\<And>x. errors_in S (f x)) \<Longrightarrow> errors_in S (pbind m f)"
  unfolding errors_in_def pbind_def
  by (auto split: prod.splits sum.splits)

lemma errors_in_pseq [intro!]:
  "errors_in S m \<Longrightarrow> errors_in S n \<Longrightarrow> errors_in S (pseq m n)"
  unfolding pseq_def by (rule errors_in_pbind)

lemma errors_in_or_fatal [intro!]:
  "errors_in S m \<Longrightarrow> FATAL msg \<in> S \<Longrightarrow> errors_in S (or_fatal m msg)"
  unfolding or_fatal_def by (rule errors_in_pbind) (auto split: sum.splits)

lemma errors_in_or_nss_fatal [intro!]:
  "errors_in S m \<Longrightarrow> NSS_FATAL msg \<in> S \<Longrightarrow> errors_in S (or_nss_fatal m msg)"
  unfolding or_nss_fatal_def by (rule errors_in_pbind) (auto split: sum.splits)

lemma errors_in_if [intro!]:
  "(b \<Longrightarrow> errors_in S m) \<Longrightarrow> (\<not> b \<Longrightarrow> errors_in S n) \<Longrightarrow> errors_in S (if b then m else n)"
  by simp

lemma errors_in_syscall [intro!]: "errors_in S (syscall op)"
  by (auto simp: errors_in_def syscall_def split: prod.splits option.splits)

lemma errors_in_kernel [intro!]:
  "errors_in S (openat d n fl m)"
  "errors_in S (open_abs p fl)"
  "errors_in S (open_proc_fd fd fl)"
  "errors_in S (fstat fd)"
  "errors_in S (readlinkat fd k)"
  "errors_in S (close fd)"
  "errors_in S (mkdirat d n m)"
  "errors_in S (symlinkat t d n)"
  "errors_in S (fchown fd u g)"
  "errors_in S (fchmod fd m)"
  "errors_in S (futimens fd ta tb)"
  "errors_in S (fallocate fd len)"
  "errors_in S (mmap fd len)"
  "errors_in S (munmap fd len)"
  "errors_in S (renameat d n n')"
  "errors_in S (unlinkat d n rm)"
  "errors_in S (fdopendir fd)"
  "errors_in S (readdir ns)"
  "errors_in S closedir"
  "errors_in S alloc"
  "errors_in S (read_fd fd len)"
  "errors_in S get_new_dbdir_name"
  "errors_in S get_old_dbdir_name"
  "errors_in S (set_new_dbdir_name s)"
  "errors_in S (set_old_dbdir_name s)"
  "errors_in S gmtime_now"
  unfolding openat_def open_abs_def open_proc_fd_def fstat_def readlinkat_def close_def
    mkdirat_def symlinkat_def fchown_def fchmod_def futimens_def fallocate_def mmap_def
    munmap_def renameat_def unlinkat_def fdopendir_def readdir_def closedir_def alloc_def
    read_fd_def
  by (auto simp: errors_in_def get_new_dbdir_name_def get_old_dbdir_name_def
        set_new_dbdir_name_def set_old_dbdir_name_def gmtime_now_def
        dest: errors_inD [OF errors_in_syscall] split: option.splits)

lemma errors_in_memcpy_map [intro!]:
  "KILLED ''SIGBUS'' \<in> S \<Longrightarrow> errors_in S (memcpy_map fd fd' len)"
  by (auto simp: errors_in_def memcpy_map_def split: option.splits if_splits)

lemma keeps_globals [intro!]:
  "keeps f get_new_dbdir_name"
  "keeps f get_old_dbdir_name"
  "keeps f gmtime_now"
  "keeps f geteuid"
  "keeps f getegid"
  by (simp_all add: keeps_def get_new_dbdir_name_def get_old_dbdir_name_def gmtime_now_def
        geteuid_def getegid_def)

section \<open>The name of the new generation\<close>

definition digits :: "char set" where
  "digits = set ''0123456789''"

lemma digit_char_digits: "d < 10 \<Longrightarrow> digit_char d \<in> digits"
  unfolding digit_char_def digits_def by (rule nth_mem) simp

lemma dec_digits: "set (dec n) \<subseteq> digits"
proof (induction n rule: dec.induct)
  case (1 n)
  show ?case
  proof (cases "n < 10")
    case True
    then show ?thesis by (subst dec.simps) (simp add: digit_char_digits)
  next
    case False
    with 1 show ?thesis by (subst dec.simps) (simp add: digit_char_digits)
  qed
qed

lemma length_dec_1: "n < 10 \<Longrightarrow> length (dec n) = 1"
  by (subst dec.simps) simp

lemma length_dec_2: "10 \<le> n \<Longrightarrow> n < 100 \<Longrightarrow> length (dec n) = 2"
  by (subst dec.simps) (simp add: length_dec_1)

lemma length_dec_3: "100 \<le> n \<Longrightarrow> n < 1000 \<Longrightarrow> length (dec n) = 3"
  by (subst dec.simps) (simp add: length_dec_2)

lemma length_dec_4: "1000 \<le> n \<Longrightarrow> n < 10000 \<Longrightarrow> length (dec n) = 4"
  by (subst dec.simps) (simp add: length_dec_3)

lemma length_dec_le3: "n < 1000 \<Longrightarrow> length (dec n) \<le> 3"
  using length_dec_1 [of n] length_dec_2 [of n] length_dec_3 [of n]
  by (cases "n < 10"; cases "n < 100") auto

lemma fmt_02_length: "0 \<le> v \<Longrightarrow> v < 100 \<Longrightarrow> length (fmt_02 v) = 2"
  by (auto simp: fmt_02_def length_dec_1 length_dec_2)

lemma fmt_02_digits: "0 \<le> v \<Longrightarrow> set (fmt_02 v) \<subseteq> digits"
  using dec_digits by (auto simp: fmt_02_def digits_def)


definition tm_in_range :: "tm \<Rightarrow> bool" where
  "tm_in_range t =
     (0 \<le> tm_sec t \<and> tm_sec t \<le> 60 \<and> 0 \<le> tm_min t \<and> tm_min t \<le> 59
      \<and> 0 \<le> tm_hour t \<and> tm_hour t \<le> 23 \<and> 1 \<le> tm_mday t \<and> tm_mday t \<le> 31
      \<and> 0 \<le> tm_mon t \<and> tm_mon t \<le> 11)"

lemma strftime_tail_length:
  assumes "tm_in_range t"
  shows "length (fmt_02 (tm_mon t + 1) @ fmt_02 (tm_mday t) @ fmt_02 (tm_hour t)
                 @ fmt_02 (tm_min t) @ fmt_02 (tm_sec t)) = 10"
  using assms by (simp add: tm_in_range_def fmt_02_length)

lemma strftime_tail_digits:
  assumes "tm_in_range t"
  shows "set (fmt_02 (tm_mon t + 1) @ fmt_02 (tm_mday t) @ fmt_02 (tm_hour t)
                 @ fmt_02 (tm_min t) @ fmt_02 (tm_sec t)) \<subseteq> digits"
  using assms by (simp add: tm_in_range_def fmt_02_digits)

lemma strftime_four_digit_year:
  assumes "tm_in_range t" and "1000 \<le> tm_year t + 1900" and "tm_year t + 1900 \<le> 9999"
  shows "fst (strftime NSSDB_DIR_TS_SIZE t) = NSSDB_DIR_TS_LEN"
    and "length (snd (strftime NSSDB_DIR_TS_SIZE t)) = 14"
    and "set (snd (strftime NSSDB_DIR_TS_SIZE t)) \<subseteq> digits"
    and "snd (strftime NSSDB_DIR_TS_SIZE t) =
           dec (nat (tm_year t + 1900)) @ fmt_02 (tm_mon t + 1) @ fmt_02 (tm_mday t)
           @ fmt_02 (tm_hour t) @ fmt_02 (tm_min t) @ fmt_02 (tm_sec t)"
proof -
  have y: "fmt_Y (tm_year t + 1900) = dec (nat (tm_year t + 1900))"
    using assms(2) by (simp add: fmt_Y_def)
  have ly: "length (dec (nat (tm_year t + 1900))) = 4"
    using assms(2,3) by (intro length_dec_4) auto
  note tl = strftime_tail_length [OF assms(1)]
  note td = strftime_tail_digits [OF assms(1)]
  show "fst (strftime NSSDB_DIR_TS_SIZE t) = NSSDB_DIR_TS_LEN"
    using y ly tl
    by (simp add: strftime_def Let_def NSSDB_DIR_TS_SIZE_def NSSDB_DIR_TS_LEN_def
          NSSDB_DIR_TSTAMP_def)
  show "length (snd (strftime NSSDB_DIR_TS_SIZE t)) = 14"
    using y ly tl
    by (simp add: strftime_def Let_def NSSDB_DIR_TS_SIZE_def NSSDB_DIR_TSTAMP_def)
  show "set (snd (strftime NSSDB_DIR_TS_SIZE t)) \<subseteq> digits"
    using y ly tl td dec_digits [of "nat (tm_year t + 1900)"]
    by (simp add: strftime_def Let_def NSSDB_DIR_TS_SIZE_def NSSDB_DIR_TSTAMP_def)
  show "snd (strftime NSSDB_DIR_TS_SIZE t) =
           dec (nat (tm_year t + 1900)) @ fmt_02 (tm_mon t + 1) @ fmt_02 (tm_mday t)
           @ fmt_02 (tm_hour t) @ fmt_02 (tm_min t) @ fmt_02 (tm_sec t)"
    using y ly tl
    by (simp add: strftime_def Let_def NSSDB_DIR_TS_SIZE_def NSSDB_DIR_TSTAMP_def)
qed

lemma strftime_short_year:
  assumes "tm_in_range t" and "0 \<le> tm_year t + 1900" and "tm_year t + 1900 < 1000"
  shows "fst (strftime NSSDB_DIR_TS_SIZE t) \<noteq> NSSDB_DIR_TS_LEN"
proof -
  have y: "fmt_Y (tm_year t + 1900) = dec (nat (tm_year t + 1900))"
    using assms(2) by (simp add: fmt_Y_def)
  have ly: "length (dec (nat (tm_year t + 1900))) \<le> 3"
    using assms(2,3) by (intro length_dec_le3) auto
  note tl = strftime_tail_length [OF assms(1)]
  show ?thesis
    using y ly tl
    by (simp add: strftime_def Let_def NSSDB_DIR_TS_SIZE_def NSSDB_DIR_TS_LEN_def
          NSSDB_DIR_TSTAMP_def)
qed

text \<open>
  C8. \<^verbatim>\<open>new_nssdb_dir\<close> takes the current time from \<^verbatim>\<open>time\<close> and breaks it down with
  \<^verbatim>\<open>gmtime\<close>. The clock of the machine is never before 1970, so the year is never
  before the year 0, which is all the statement needs; the other fields are in the
  ranges \<^verbatim>\<open>gmtime\<close> gives them. A year outside the four-digit range ends the run
  fatally and nothing is created: above 9999 at the year check, before any call, and
  below 1000 at the check of \<^verbatim>\<open>strftime\<close>'s result, the unpadded year making the text
  shorter than 14 characters. For a year from 1000 to 9999 neither check fails, and the
  name of the new generation is \<^verbatim>\<open>alias-\<close> followed by the 14 digits of year, month,
  day, hour, minute and second, 20 characters in all.
\<close>

theorem new_nssdb_dir_name:
  assumes "tm_in_range (now_tm w)" and "0 \<le> tm_year (now_tm w) + 1900"
  shows "(9999 < tm_year (now_tm w) + 1900 \<longrightarrow>
           new_nssdb_dir cfg c w
             = (Inl (FATAL ''This program is not supported in the year''), w))
       \<and> (tm_year (now_tm w) + 1900 < 1000 \<longrightarrow>
           fst (new_nssdb_dir cfg c w) = Inl (FATAL ''Failed to format timestamp'')
           \<and> inodes (snd (new_nssdb_dir cfg c w)) = inodes w
           \<and> journal (snd (new_nssdb_dir cfg c w)) = journal w)
       \<and> (1000 \<le> tm_year (now_tm w) + 1900 \<and> tm_year (now_tm w) + 1900 \<le> 9999 \<longrightarrow>
           new_dbdir_name (snd (new_nssdb_dir cfg c w))
             = ''alias-'' @ dec (nat (tm_year (now_tm w) + 1900))
                 @ fmt_02 (tm_mon (now_tm w) + 1) @ fmt_02 (tm_mday (now_tm w))
                 @ fmt_02 (tm_hour (now_tm w)) @ fmt_02 (tm_min (now_tm w))
                 @ fmt_02 (tm_sec (now_tm w))
           \<and> length (new_dbdir_name (snd (new_nssdb_dir cfg c w))) = 20
           \<and> set (drop 6 (new_dbdir_name (snd (new_nssdb_dir cfg c w)))) \<subseteq> digits
           \<and> fst (new_nssdb_dir cfg c w)
               \<notin> {Inl (FATAL ''This program is not supported in the year''),
                  Inl (FATAL ''Failed to format timestamp'')})"
proof (intro conjI impI)
  assume "9999 < tm_year (now_tm w) + 1900"
  then show "new_nssdb_dir cfg c w
               = (Inl (FATAL ''This program is not supported in the year''), w)"
    by (simp add: new_nssdb_dir_def gmtime_now_def pbind_def pfail_def)
next
  assume y: "tm_year (now_tm w) + 1900 < 1000"
  with strftime_short_year [OF assms]
  have n: "fst (strftime NSSDB_DIR_TS_SIZE (now_tm w)) \<noteq> NSSDB_DIR_TS_LEN" by simp
  with y have run: "new_nssdb_dir cfg c w
      = (Inl (FATAL ''Failed to format timestamp''), w\<lparr>new_dbdir_name := NSSDB_DIR_PREFIX\<rparr>)"
    by (simp add: new_nssdb_dir_def gmtime_now_def set_new_dbdir_name_def pbind_def
          pseq_def pfail_def)
  show "fst (new_nssdb_dir cfg c w) = Inl (FATAL ''Failed to format timestamp'')"
    by (simp add: run)
  show "inodes (snd (new_nssdb_dir cfg c w)) = inodes w" by (simp add: run)
  show "journal (snd (new_nssdb_dir cfg c w)) = journal w" by (simp add: run)
next
  assume y: "1000 \<le> tm_year (now_tm w) + 1900 \<and> tm_year (now_tm w) + 1900 \<le> 9999"
  let ?ts = "snd (strftime NSSDB_DIR_TS_SIZE (now_tm w))"
  let ?tail = "pbind get_new_dbdir_name (\<lambda>new_name.
     pseq (or_fatal (mkdirat c new_name 0x1E8)
             ''Failed to create directory: new_dbdir_name'')
    (pbind (or_fatal (openat c new_name [O_RDONLY, O_DIRECTORY, O_NOFOLLOW] 0)
              ''Failed to open directory: new_dbdir_name'') (\<lambda>dirfd.
     pseq (or_fatal (fchown dirfd None (Some (nss_gid cfg)))
             ''Failed to change owner of directory: new_dbdir_name'')
          (preturn dirfd))))"
  let ?w1 = "w\<lparr>new_dbdir_name := NSSDB_DIR_PREFIX @ ?ts\<rparr>"
  let ?S = "{FATAL ''Failed to create directory: new_dbdir_name'',
             FATAL ''Failed to open directory: new_dbdir_name'',
             FATAL ''Failed to change owner of directory: new_dbdir_name''}"
  from y have y1: "1000 \<le> tm_year (now_tm w) + 1900" and y2: "tm_year (now_tm w) + 1900 \<le> 9999"
    by auto
  note sf = strftime_four_digit_year [OF assms(1) y1 y2]
  have run: "new_nssdb_dir cfg c w = ?tail ?w1"
    using y sf(1)
    by (simp add: new_nssdb_dir_def gmtime_now_def set_new_dbdir_name_def pbind_def pseq_def)
  have k: "keeps new_dbdir_name ?tail"
    by (intro keeps_pbind keeps_pseq keeps_or_fatal keeps_kernel keeps_preturn keeps_globals)
       simp_all
  have e: "errors_in ?S ?tail"
    by (intro errors_in_pbind errors_in_pseq errors_in_or_fatal errors_in_kernel
          errors_in_preturn) simp_all
  have name: "new_dbdir_name (snd (new_nssdb_dir cfg c w)) = NSSDB_DIR_PREFIX @ ?ts"
    using keepsD [OF k, of ?w1] run by simp
  show "new_dbdir_name (snd (new_nssdb_dir cfg c w))
             = ''alias-'' @ dec (nat (tm_year (now_tm w) + 1900))
                 @ fmt_02 (tm_mon (now_tm w) + 1) @ fmt_02 (tm_mday (now_tm w))
                 @ fmt_02 (tm_hour (now_tm w)) @ fmt_02 (tm_min (now_tm w))
                 @ fmt_02 (tm_sec (now_tm w))"
    using name sf(4) by (simp add: NSSDB_DIR_PREFIX_def)
  show "length (new_dbdir_name (snd (new_nssdb_dir cfg c w))) = 20"
    using name sf(2) by (simp add: NSSDB_DIR_PREFIX_def)
  show "set (drop 6 (new_dbdir_name (snd (new_nssdb_dir cfg c w)))) \<subseteq> digits"
    using name sf(3) by (simp add: NSSDB_DIR_PREFIX_def)
  show "fst (new_nssdb_dir cfg c w)
               \<notin> {Inl (FATAL ''This program is not supported in the year''),
                  Inl (FATAL ''Failed to format timestamp'')}"
  proof (cases "?tail ?w1")
    case (Pair r w')
    show ?thesis
    proof (cases r)
      case (Inl e')
      with Pair errors_inD [OF e, of ?w1 e' w'] have "e' \<in> ?S" by simp
      with Pair Inl run show ?thesis by auto
    next
      case (Inr d)
      with Pair run show ?thesis by simp
    qed
  qed
qed

text \<open>The example clock (2026), the year 10000 and the year 999.\<close>

theorem new_nssdb_dir_name_witness:
  "tm_in_range ex_tm \<and> 0 \<le> tm_year ex_tm + 1900
   \<and> new_dbdir_name (snd (new_nssdb_dir ex_cfg 1 (ex_world []))) = ''alias-20261030090807''
   \<and> length (new_dbdir_name (snd (new_nssdb_dir ex_cfg 1 (ex_world [])))) = 20
   \<and> new_nssdb_dir ex_cfg 1 ((ex_world [])\<lparr>now_tm := ex_tm\<lparr>tm_year := 8100\<rparr>\<rparr>)
       = (Inl (FATAL ''This program is not supported in the year''),
          (ex_world [])\<lparr>now_tm := ex_tm\<lparr>tm_year := 8100\<rparr>\<rparr>)
   \<and> fst (new_nssdb_dir ex_cfg 1 ((ex_world [])\<lparr>now_tm := ex_tm\<lparr>tm_year := - 901\<rparr>\<rparr>))
       = Inl (FATAL ''Failed to format timestamp'')"
proof -
  have r: "tm_in_range ex_tm" "tm_in_range (ex_tm\<lparr>tm_year := 8100\<rparr>)"
    "tm_in_range (ex_tm\<lparr>tm_year := - 901\<rparr>)"
    by (simp_all add: tm_in_range_def ex_tm_def)
  have p: "0 \<le> tm_year ex_tm + 1900" by (simp add: ex_tm_def)
  have n: "now_tm (ex_world []) = ex_tm" by (simp add: ex_world_def)
  have d: "dec (nat (tm_year ex_tm + 1900)) = ''2026''"
    by (simp add: ex_tm_def dec.simps digit_char_def)
  have f: "fmt_02 (tm_mon ex_tm + 1) = ''10''" "fmt_02 (tm_mday ex_tm) = ''30''"
    "fmt_02 (tm_hour ex_tm) = ''09''" "fmt_02 (tm_min ex_tm) = ''08''"
    "fmt_02 (tm_sec ex_tm) = ''07''"
    by (simp_all add: ex_tm_def fmt_02_def dec.simps digit_char_def)
  have y: "1000 \<le> tm_year ex_tm + 1900 \<and> tm_year ex_tm + 1900 \<le> 9999"
    by (simp add: ex_tm_def)
  from new_nssdb_dir_name [of "ex_world []" ex_cfg 1] r(1) p n y d f
  have a: "new_dbdir_name (snd (new_nssdb_dir ex_cfg 1 (ex_world []))) = ''alias-20261030090807''"
    and b: "length (new_dbdir_name (snd (new_nssdb_dir ex_cfg 1 (ex_world [])))) = 20"
    by simp_all
  from new_nssdb_dir_name [of "(ex_world [])\<lparr>now_tm := ex_tm\<lparr>tm_year := 8100\<rparr>\<rparr>" ex_cfg 1] r(2)
  have c: "new_nssdb_dir ex_cfg 1 ((ex_world [])\<lparr>now_tm := ex_tm\<lparr>tm_year := 8100\<rparr>\<rparr>)
       = (Inl (FATAL ''This program is not supported in the year''),
          (ex_world [])\<lparr>now_tm := ex_tm\<lparr>tm_year := 8100\<rparr>\<rparr>)"
    by simp
  from new_nssdb_dir_name [of "(ex_world [])\<lparr>now_tm := ex_tm\<lparr>tm_year := - 901\<rparr>\<rparr>" ex_cfg 1] r(3)
  have e: "fst (new_nssdb_dir ex_cfg 1 ((ex_world [])\<lparr>now_tm := ex_tm\<lparr>tm_year := - 901\<rparr>\<rparr>))
       = Inl (FATAL ''Failed to format timestamp'')"
    by simp
  from r(1) p a b c e show ?thesis by blast
qed

section \<open>The check after the content copy\<close>

lemma hoare_trivial: "hoare P m (\<lambda>_ _. True) (\<lambda>_ _. True)"
  by (auto simp: hoare_def split: prod.splits sum.splits)

lemma hoare_fstat:
  "hoare P (fstat fd)
     (\<lambda>r w. case r of Inl e \<Rightarrow> True
                      | Inr st \<Rightarrow> \<exists>n. inodes w fd = Some n \<and> st = stat_of n) E"
  unfolding fstat_def
  by (rule hoare_syscall) (auto simp: with_inode_def split: option.splits)

lemma hoare_skip:
  "hoare (\<lambda>_. True) n Q (\<lambda>_ _. True) \<Longrightarrow> hoare (\<lambda>_. True) (pseq m n) Q (\<lambda>_ _. True)"
  by (rule hoare_pseq [OF hoare_trivial])

lemma copy_file_contents_checked:
  assumes "copy_file_contents src dest path srcst w = (Inr (), w')"
    and "st_size srcst \<noteq> 0"
  shows "\<exists>n. inodes w' src = Some n
           \<and> tv_sec (i_mtim n) = tv_sec (st_mtim srcst)
           \<and> tv_nsec (i_mtim n) = tv_nsec (st_mtim srcst)"
proof -
  let ?Q = "\<lambda>(u::unit) w. \<exists>n. inodes w src = Some n
           \<and> tv_sec (i_mtim n) = tv_sec (st_mtim srcst)
           \<and> tv_nsec (i_mtim n) = tv_nsec (st_mtim srcst)"
  have last: "hoare (\<lambda>_. True)
     (pbind (or_fatal (fstat src) ''Failed to read file info'') (\<lambda>st.
       if tv_sec (st_mtim st) \<noteq> tv_sec (st_mtim srcst)
            \<or> tv_nsec (st_mtim st) \<noteq> tv_nsec (st_mtim srcst)
       then pfail (FATAL ''File changed during copy'')
       else preturn ())) ?Q (\<lambda>_ _. True)"
  proof (rule hoare_pbind)
    show "hoare (\<lambda>_. True) (or_fatal (fstat src) ''Failed to read file info'')
            (\<lambda>st w. \<exists>n. inodes w src = Some n \<and> st = stat_of n) (\<lambda>_ _. True)"
      by (rule hoare_or_fatal, rule hoare_weaken [OF hoare_fstat [where P = "\<lambda>_. True"]])
         (auto split: sum.splits)
  next
    fix st
    show "hoare (\<lambda>w. \<exists>n. inodes w src = Some n \<and> st = stat_of n)
            (if tv_sec (st_mtim st) \<noteq> tv_sec (st_mtim srcst)
                  \<or> tv_nsec (st_mtim st) \<noteq> tv_nsec (st_mtim srcst)
             then pfail (FATAL ''File changed during copy'')
             else preturn ()) ?Q (\<lambda>_ _. True)"
      by (rule hoare_if, rule hoare_pfail, simp, rule hoare_preturn)
         (auto simp: stat_of_def)
  qed
  have "hoare (\<lambda>_. True) (copy_file_contents src dest path srcst) ?Q (\<lambda>_ _. True)"
    unfolding copy_file_contents_def
    apply (rule hoare_skip)
    apply (simp only: assms(2) if_False)
    apply (rule hoare_if, rule hoare_pfail, simp)
    apply (intro hoare_skip)
    apply (rule last)
    done
  from hoareD_Inr [OF this _ assms(1)] show ?thesis by simp
qed


section \<open>What a computation adds to the journal\<close>

definition journal_adds :: "(event \<Rightarrow> bool) \<Rightarrow> 'a prog \<Rightarrow> bool" where
  "journal_adds P m =
     (\<forall>w. \<exists>evs. journal (snd (m w)) = journal w @ evs \<and> (\<forall>ev \<in> set evs. P ev))"

lemma journal_addsD:
  "journal_adds P m \<Longrightarrow> m w = (r, w')
   \<Longrightarrow> \<exists>evs. journal w' = journal w @ evs \<and> (\<forall>ev \<in> set evs. P ev)"
  unfolding journal_adds_def by (metis snd_conv)

lemma journal_adds_none: "(\<And>w. journal (snd (m w)) = journal w) \<Longrightarrow> journal_adds P m"
  unfolding journal_adds_def by (intro allI exI [of _ "[]"]) simp

lemma journal_adds_preturn [intro!]: "journal_adds P (preturn x)"
  by (rule journal_adds_none) (simp add: preturn_def)

lemma journal_adds_pfail [intro!]: "journal_adds P (pfail e)"
  by (rule journal_adds_none) (simp add: pfail_def)

lemma journal_adds_passert [intro!]: "journal_adds P (passert b msg)"
  by (auto simp: passert_def)

lemma journal_adds_pbind [intro!]:
  assumes "journal_adds P m" and "\<And>x. journal_adds P (f x)"
  shows "journal_adds P (pbind m f)"
  unfolding journal_adds_def
proof
  fix w
  obtain r w1 where mw: "m w = (r, w1)" by (cases "m w")
  from journal_addsD [OF assms(1) mw] obtain evs1
    where 1: "journal w1 = journal w @ evs1" "\<forall>ev \<in> set evs1. P ev" by blast
  show "\<exists>evs. journal (snd (pbind m f w)) = journal w @ evs \<and> (\<forall>ev \<in> set evs. P ev)"
  proof (cases r)
    case (Inl e)
    with mw 1 show ?thesis by (auto simp: pbind_def)
  next
    case (Inr x)
    obtain r2 w2 where fw: "f x w1 = (r2, w2)" by (cases "f x w1")
    from journal_addsD [OF assms(2) fw] obtain evs2
      where 2: "journal w2 = journal w1 @ evs2" "\<forall>ev \<in> set evs2. P ev" by blast
    from mw Inr fw 1 2 show ?thesis
      by (intro exI [of _ "evs1 @ evs2"]) (auto simp: pbind_def)
  qed
qed

lemma journal_adds_pseq [intro!]:
  "journal_adds P m \<Longrightarrow> journal_adds P n \<Longrightarrow> journal_adds P (pseq m n)"
  unfolding pseq_def by (rule journal_adds_pbind)

lemma journal_adds_or_fatal [intro!]: "journal_adds P m \<Longrightarrow> journal_adds P (or_fatal m msg)"
  unfolding or_fatal_def by (rule journal_adds_pbind) (auto split: sum.splits)

lemma journal_adds_or_nss_fatal [intro!]:
  "journal_adds P m \<Longrightarrow> journal_adds P (or_nss_fatal m msg)"
  unfolding or_nss_fatal_def by (rule journal_adds_pbind) (auto split: sum.splits)

lemma journal_adds_if [intro!]:
  "(b \<Longrightarrow> journal_adds P m) \<Longrightarrow> (\<not> b \<Longrightarrow> journal_adds P n)
   \<Longrightarrow> journal_adds P (if b then m else n)"
  by simp

lemma journal_adds_case_sum [intro!]:
  "(\<And>a. journal_adds P (l a)) \<Longrightarrow> (\<And>b. journal_adds P (r b))
   \<Longrightarrow> journal_adds P (case s of Inl a \<Rightarrow> l a | Inr b \<Rightarrow> r b)"
  by (cases s) auto

lemma journal_adds_case_prod [intro!]:
  "(\<And>a b. journal_adds P (g a b)) \<Longrightarrow> journal_adds P (case p of (a, b) \<Rightarrow> g a b)"
  by (cases p) auto

lemma journal_adds_let [intro!]: "journal_adds P (g v) \<Longrightarrow> journal_adds P (let x = v in g x)"
  by simp

lemma journal_adds_pforeach [intro!]:
  "(\<And>x. journal_adds P (body x)) \<Longrightarrow> journal_adds P (pforeach xs body)"
  by (induction xs) auto

lemma journal_adds_syscall:
  assumes "\<And>w. \<exists>evs. journal (snd (op w)) = journal w @ evs \<and> (\<forall>ev \<in> set evs. P ev)"
  shows "journal_adds P (syscall op)"
  unfolding journal_adds_def
proof
  fix w
  obtain e w1 where es: "env_step w = (e, w1)" by (cases "env_step w")
  then have j: "journal w1 = journal w" using env_step_fields(1) [of w] by simp
  show "\<exists>evs. journal (snd (syscall op w)) = journal w @ evs \<and> (\<forall>ev \<in> set evs. P ev)"
  proof (cases e)
    case None
    with es j assms [of w1] show ?thesis
      by (cases "op w1") (simp add: syscall_def)
  next
    case (Some a)
    with es j show ?thesis by (intro exI [of _ "[]"]) (simp add: syscall_def)
  qed
qed

lemma journal_ops [simp]:
  "journal (set_inode i n w) = journal w"
  "journal (add_entry d dn es nm n w) = journal w"
  "journal (snd (open_inode i fl w)) = journal w"
  "journal (log_ev e w) = journal w @ [e]"
  by (simp_all add: set_inode_def add_entry_def open_inode_def log_ev_def
        split: option.splits kind.splits)

lemma adds_one [simp]:
  "P e \<Longrightarrow> \<exists>evs. journal w @ [e] = journal w @ evs \<and> (\<forall>ev \<in> set evs. P ev)"
  by (intro exI [of _ "[e]"]) simp

lemma adds_none [simp]:
  "\<exists>evs. journal w = journal w @ evs \<and> (\<forall>ev \<in> set evs. P ev)"
  by (intro exI [of _ "[]"]) simp

lemma journal_adds_silent [intro!]:
  "journal_adds P (open_abs p fl)"
  "journal_adds P (open_proc_fd fd fl)"
  "journal_adds P (fstat fd)"
  "journal_adds P (readlinkat fd k)"
  "journal_adds P (close fd)"
  "journal_adds P (mmap fd len)"
  "journal_adds P (munmap fd len)"
  "journal_adds P (fdopendir fd)"
  "journal_adds P (readdir ns)"
  "journal_adds P closedir"
  "journal_adds P alloc"
  "journal_adds P (read_fd fd len)"
  "journal_adds P get_new_dbdir_name"
  "journal_adds P get_old_dbdir_name"
  "journal_adds P (set_new_dbdir_name s)"
  "journal_adds P (set_old_dbdir_name s)"
  "journal_adds P gmtime_now"
  "journal_adds P geteuid"
  "journal_adds P getegid"
  "journal_adds P (seteuid u)"
  "journal_adds P (setegid g)"
  "journal_adds P (fchdir fd)"
  unfolding open_abs_def open_proc_fd_def fstat_def readlinkat_def close_def mmap_def
    munmap_def fdopendir_def readdir_def closedir_def alloc_def read_fd_def seteuid_def
    setegid_def fchdir_def
  by ((rule journal_adds_syscall,
       simp add: with_dir_def with_inode_def split: option.splits kind.splits)
      | (rule journal_adds_none,
         simp add: get_new_dbdir_name_def get_old_dbdir_name_def set_new_dbdir_name_def
           set_old_dbdir_name_def gmtime_now_def geteuid_def getegid_def))+

lemma journal_adds_logging:
  "P (Ev_creat d n) \<Longrightarrow> journal_adds P (openat d n fl m)"
  "P (Ev_mkdirat d n) \<Longrightarrow> journal_adds P (mkdirat d n m)"
  "P (Ev_symlinkat d n t) \<Longrightarrow> journal_adds P (symlinkat t d n)"
  "P (Ev_chown fd) \<Longrightarrow> journal_adds P (fchown fd u g)"
  "P (Ev_chmod fd) \<Longrightarrow> journal_adds P (fchmod fd m)"
  "P (Ev_utimens fd) \<Longrightarrow> journal_adds P (futimens fd ta tb)"
  "P (Ev_fallocate fd) \<Longrightarrow> journal_adds P (fallocate fd len)"
  "P (Ev_renameat d n n') \<Longrightarrow> journal_adds P (renameat d n n')"
  "P (Ev_unlinkat d n) \<Longrightarrow> journal_adds P (unlinkat d n rm)"
  unfolding openat_def mkdirat_def symlinkat_def fchown_def fchmod_def futimens_def
    fallocate_def renameat_def unlinkat_def
  by (rule journal_adds_syscall,
      simp add: with_dir_def with_inode_def split: option.splits kind.splits)+

lemma journal_adds_memcpy_map:
  "P (Ev_memcpy dest src) \<Longrightarrow> journal_adds P (memcpy_map dest src len)"
  unfolding journal_adds_def memcpy_map_def
  by (simp split: option.splits)


lemma journal_adds_mono:
  "journal_adds P m \<Longrightarrow> (\<And>ev. P ev \<Longrightarrow> Q ev) \<Longrightarrow> journal_adds Q m"
  unfolding journal_adds_def by (meson)

text \<open>
  The events of copying: they create and fill files, directories and links and set
  their attributes. They never rename or remove a name and never touch a record of
  the certificate store.
\<close>

fun copy_event :: "event \<Rightarrow> bool" where
  "copy_event (Ev_renameat d a b) = False"
| "copy_event (Ev_unlinkat d a) = False"
| "copy_event (Ev_nss_delete c) = False"
| "copy_event (Ev_nss_import c) = False"
| "copy_event ev = True"

lemmas journal_adds_struct =
  journal_adds_preturn journal_adds_pfail journal_adds_passert journal_adds_pbind
  journal_adds_pseq journal_adds_or_fatal journal_adds_or_nss_fatal journal_adds_if
  journal_adds_case_sum journal_adds_case_prod journal_adds_let journal_adds_pforeach
  journal_adds_silent journal_adds_logging journal_adds_memcpy_map

lemmas keeps_struct =
  keeps_preturn keeps_pfail keeps_passert keeps_pbind keeps_pseq keeps_or_fatal
  keeps_or_nss_fatal keeps_if keeps_case_sum keeps_case_prod keeps_let keeps_pforeach
  keeps_kernel keeps_memcpy_map keeps_globals

lemma keeps_nss_names [intro!]:
  "keeps nss (set_new_dbdir_name s)" "keeps nss (set_old_dbdir_name s)"
  by (simp_all add: keeps_def set_new_dbdir_name_def set_old_dbdir_name_def)

lemma old_nssdb_dir_journal: "journal_adds copy_event (old_nssdb_dir c)"
  unfolding old_nssdb_dir_def by (intro journal_adds_struct) simp_all

lemma new_nssdb_dir_journal: "journal_adds copy_event (new_nssdb_dir cfg c)"
  unfolding new_nssdb_dir_def by (intro journal_adds_struct) simp_all

lemma copy_file_contents_journal: "journal_adds copy_event (copy_file_contents src dest path srcst)"
  unfolding copy_file_contents_def by (intro journal_adds_struct) simp_all

lemma copy_nssdb_files_journal: "journal_adds copy_event (copy_nssdb_files cfg srcdir destdir)"
  unfolding copy_nssdb_files_def copy_nssdb_file_def
  by (intro journal_adds_struct copy_file_contents_journal) simp_all

lemma old_nssdb_dir_nss: "keeps nss (old_nssdb_dir c)"
  unfolding old_nssdb_dir_def by (intro keeps_struct keeps_nss_names) simp_all

lemma new_nssdb_dir_nss: "keeps nss (new_nssdb_dir cfg c)"
  unfolding new_nssdb_dir_def by (intro keeps_struct keeps_nss_names) simp_all

lemma copy_file_contents_nss: "keeps nss (copy_file_contents src dest path srcst)"
  unfolding copy_file_contents_def by (intro keeps_struct) simp_all

lemma copy_nssdb_files_nss: "keeps nss (copy_nssdb_files cfg srcdir destdir)"
  unfolding copy_nssdb_files_def copy_nssdb_file_def
  by (intro keeps_struct copy_file_contents_nss) simp_all



section \<open>An empty store file that changes while it is copied\<close>

lemma fst_eqD: "fst p = a \<Longrightarrow> p = (a, snd p)"
  by (cases p) simp

text \<open>
  The check of the modification time is not made for every store file:
  \<^verbatim>\<open>copy_file_contents\<close> returns at once when the size read at open is zero.
  \<^verbatim>\<open>secmod.db\<close> of the example is empty when it is opened. Another process
  rewrites it (content, size and modification time) at the 41st call of the run,
  which is the creation of its destination, so between the start and the end of its
  copy. The run does not end there: it completes, with the store updated and the
  alias swapped, and the new generation holds the stale, empty copy.
\<close>

definition ex_race :: "step list" where
  "ex_race = replicate 40 ex_ok
     @ [\<lparr>env_writes = [(6, ex_inode (Reg ''changed'') 48 5 0x180 99)], fault = None\<rparr>]"

text \<open>What a run returned, and the inodes it left under the given numbers.\<close>

definition ex_observe :: "ino list \<Rightarrow> (err + 'a) \<times> world \<Rightarrow> (err + 'a) \<times> inode option list" where
  "ex_observe is p = (fst p, map (inodes (snd p)) is)"

theorem store_file_race_counterexample:
  "inodes (ex_world ex_race) 6 = Some (ex_inode (Reg []) 48 5 0x180 15)
   \<and> ex_observe [6, 14] (main ex_cfg 2 (ex_world ex_race))
       = (Inr (), [Some (ex_inode (Reg ''changed'') 48 5 0x180 99),
                   Some (ex_inode (Reg []) 48 5 0x180 15)])"
  by code_simp

section \<open>Copying one regular file in the tree pass\<close>

lemma mode_type_bits: "((t::mode_t) OR (p AND 0xFFF)) AND 0xF000 = t AND 0xF000"
proof -
  have "(p AND 0xFFF) AND (0xF000::mode_t) = p AND (0xFFF AND 0xF000)"
    by (simp add: and.assoc)
  also have "\<dots> = 0" by simp
  finally show ?thesis by (simp add: bit.conj_disj_distrib2)
qed

lemma mode_perm_bits:
  "(t::mode_t) AND 0xFFF = 0 \<Longrightarrow> (t OR (p AND 0xFFF)) AND 0xFFF = p AND 0xFFF"
  by (simp add: bit.conj_disj_distrib2 and.assoc)

lemma stat_of_reg:
  "i_kind n = Reg bs \<Longrightarrow> S_ISREG (st_mode (stat_of n)) \<and> \<not> S_ISLNK (st_mode (stat_of n))
     \<and> st_mode (stat_of n) AND 0xFFF = i_perm n AND 0xFFF
     \<and> st_size (stat_of n) = int (length bs)"
  by (simp add: stat_of_def S_ISREG_def S_ISLNK_def S_IFMT_def S_IFREG_def S_IFLNK_def
        mode_type_bits mode_perm_bits)

lemma syscall_quiet: "sched w = [] \<Longrightarrow> syscall op w = (Inr (fst (op w)), snd (op w))"
  by (simp add: syscall_def env_step_def split: prod.splits)


lemma open_inode_reg:
  "inodes w i = Some n \<Longrightarrow> i_kind n = Reg bs \<Longrightarrow> O_DIRECTORY \<notin> set fl
   \<Longrightarrow> open_inode i fl w = (Inr i, w)"
  by (simp add: open_inode_def)

lemmas quiet_defs =
  syscall_quiet with_inode_def with_dir_def set_inode_def log_ev_def add_entry_def
  fresh_inode_def wants_write_def
  openat_def open_proc_fd_def fstat_def readlinkat_def close_def
  mkdirat_def symlinkat_def fchown_def fchmod_def futimens_def
  fallocate_def mmap_def munmap_def memcpy_map_def file_bytes_def zeros_def
  renameat_def unlinkat_def alloc_def
  or_fatal_def pbind_def pseq_def preturn_def pfail_def passert_def

lemma copy_file_existing:
  assumes "sched w = []" and "take 1 path = ''/''" and "1 < length path"
    and "inodes w srcpfd = Some n" and "i_kind n = Reg bs"
    and "st_mode srcst AND S_IFMT = S_IFREG"
    and "inodes w destdir = Some dn" and "i_kind dn = Dir es" and "map_of es name = Some j"
    and "inodes w j = Some dj" and "open_inode j [O_WRONLY, O_NOFOLLOW] w = (Inr j, w)"
  shows "copy_file srcpfd destdir name path srcst w
           = (Inr (),
              w\<lparr>inodes := (inodes w)(j \<mapsto> dj\<lparr>i_uid := st_uid srcst, i_gid := st_gid srcst,
                                               i_perm := st_mode srcst AND 0xFFF\<rparr>),
                journal := journal w @ [Ev_chown j, Ev_chmod j]\<rparr>)"
proof -
  have nl: "\<not> S_ISLNK (st_mode srcst)"
    using assms(6) by (simp add: S_ISLNK_def S_IFREG_def S_IFLNK_def)
  have src: "open_inode srcpfd [O_RDONLY] w = (Inr srcpfd, w)"
    using assms(4,5) by (simp add: open_inode_reg)
  have hd: "hd path = CHR ''/''" using assms(2) by (cases path) simp_all
  show ?thesis
    using assms(1-5,7-11) nl src hd
    by (simp add: copy_file_def copy_fd_def copy_metadata_def quiet_defs and.assoc)
qed

lemma copy_file_fresh:
  assumes "sched w = []" and "take 1 path = ''/''" and "1 < length path"
    and "hd (tl path) \<noteq> CHR ''/''"
    and "inodes w srcpfd = Some n" and "i_kind n = Reg bs" and "srcst = stat_of n"
    and "int (length bs) \<le> SSIZE_MAX"
    and "inodes w destdir = Some dn" and "i_kind dn = Dir es" and "map_of es name = None"
    and "inodes w (next_ino w) = None"
  shows "copy_file srcpfd destdir name path srcst w
           = (Inr (),
              w\<lparr>inodes := (inodes w)
                   (destdir \<mapsto> dn\<lparr>i_kind := Dir (es @ [(name, next_ino w)]),
                                    i_mtim := now_ts w\<rparr>,
                    next_ino w \<mapsto> \<lparr>i_kind = Reg bs, i_uid = i_uid n, i_gid = i_gid n,
                                     i_perm = i_perm n AND 0xFFF,
                                     i_atim = i_atim n, i_mtim = i_mtim n\<rparr>),
                next_ino := Suc (next_ino w),
                journal := journal w @
                  (if bs = [] then [Ev_creat destdir name, Ev_chown (next_ino w),
                                    Ev_chmod (next_ino w), Ev_utimens (next_ino w)]
                   else [Ev_creat destdir name, Ev_fallocate (next_ino w),
                         Ev_memcpy (next_ino w) srcpfd, Ev_chown (next_ino w),
                         Ev_chmod (next_ino w), Ev_utimens (next_ino w)])\<rparr>)"
proof -
  note sr = stat_of_reg [OF assms(6)]
  have nl: "\<not> S_ISLNK (st_mode srcst)" using sr assms(7) by simp
  have src: "\<And>w'. inodes w' srcpfd = Some n \<Longrightarrow> open_inode srcpfd [O_RDONLY] w' = (Inr srcpfd, w')"
    using assms(6) by (simp add: open_inode_reg)
  have hd: "hd path = CHR ''/''" using assms(2) by (cases path) simp_all
  have tl: "tl path \<noteq> []" using assms(3) by (cases path) auto
  have ne: "srcpfd \<noteq> next_ino w" "destdir \<noteq> next_ino w"
    using assms(5,9,12) by auto
  have ne2: "srcpfd \<noteq> destdir" using assms(5,6,9,10) by auto
  show ?thesis
  proof (cases "bs = []")
    case True
    with assms sr nl src hd tl ne ne2 show ?thesis
      by (simp add: copy_file_def copy_fd_def copy_metadata_def copy_file_contents_def
            quiet_defs and.assoc stat_of_def fun_upd_twist)
  next
    case False
    with assms sr nl src hd tl ne ne2 show ?thesis
      by (simp add: copy_file_def copy_fd_def copy_metadata_def copy_file_contents_def
            quiet_defs and.assoc stat_of_def fun_upd_twist)
  qed
qed


lemma copy_file_unopenable:
  assumes "sched w = []" and "take 1 path = ''/''" and "1 < length path"
    and "inodes w srcpfd = Some n" and "i_kind n = Reg bs"
    and "inodes w destdir = Some dn" and "i_kind dn = Dir es" and "map_of es name = Some j"
    and "open_inode j [O_WRONLY, O_NOFOLLOW] w = (Inl e, w)"
  shows "copy_file srcpfd destdir name path srcst w = (Inl (FATAL ''Failed to open file''), w)"
proof -
  have src: "open_inode srcpfd [O_RDONLY] w = (Inr srcpfd, w)"
    using assms(4,5) by (simp add: open_inode_reg)
  show ?thesis
    using assms src
    by (simp add: copy_file_def copy_fd_def quiet_defs)
qed

text \<open>
  C6. On a quiet machine, \<^verbatim>\<open>copy_file\<close> for a regular source file whose
  \<^verbatim>\<open>stat\<close> the caller has just taken: when the destination directory has no entry
  of that name, the entry is created and the new file has the source's content,
  owner, group, permission bits and both timestamps; when the entry exists and is a
  regular file, that file keeps its content and its timestamps and takes the
  source's owner, group and permission bits.
\<close>

theorem copy_file_effect:
  assumes "sched w = []" and "take 1 path = ''/''" and "1 < length path"
    and "hd (tl path) \<noteq> CHR ''/''"
    and "inodes w srcpfd = Some n" and "i_kind n = Reg bs" and "srcst = stat_of n"
    and "int (length bs) \<le> SSIZE_MAX"
    and "inodes w destdir = Some dn" and "i_kind dn = Dir es"
    and "inodes w (next_ino w) = None"
  shows "(map_of es name = None \<longrightarrow>
           (\<exists>w' dn'. copy_file srcpfd destdir name path srcst w = (Inr (), w')
              \<and> inodes w' destdir = Some dn'
              \<and> i_kind dn' = Dir (es @ [(name, next_ino w)])
              \<and> inodes w' (next_ino w)
                  = Some \<lparr>i_kind = Reg bs, i_uid = i_uid n, i_gid = i_gid n,
                          i_perm = i_perm n AND 0xFFF,
                          i_atim = i_atim n, i_mtim = i_mtim n\<rparr>))
       \<and> (\<forall>j dj cs. map_of es name = Some j \<and> inodes w j = Some dj \<and> i_kind dj = Reg cs \<longrightarrow>
           (\<exists>w'. copy_file srcpfd destdir name path srcst w = (Inr (), w')
              \<and> inodes w' j
                  = Some \<lparr>i_kind = Reg cs, i_uid = i_uid n, i_gid = i_gid n,
                          i_perm = i_perm n AND 0xFFF,
                          i_atim = i_atim dj, i_mtim = i_mtim dj\<rparr>))"
proof (intro conjI impI allI)
  assume "map_of es name = None"
  from copy_file_fresh [OF assms(1-10) this assms(11)]
  show "\<exists>w' dn'. copy_file srcpfd destdir name path srcst w = (Inr (), w')
              \<and> inodes w' destdir = Some dn'
              \<and> i_kind dn' = Dir (es @ [(name, next_ino w)])
              \<and> inodes w' (next_ino w)
                  = Some \<lparr>i_kind = Reg bs, i_uid = i_uid n, i_gid = i_gid n,
                          i_perm = i_perm n AND 0xFFF,
                          i_atim = i_atim n, i_mtim = i_mtim n\<rparr>"
    using assms(9,11) by auto
next
  fix j dj cs
  assume a: "map_of es name = Some j \<and> inodes w j = Some dj \<and> i_kind dj = Reg cs"
  note sr = stat_of_reg [OF assms(6)]
  have t: "st_mode srcst AND S_IFMT = S_IFREG"
    using sr assms(7) by (simp add: S_ISREG_def)
  have o: "open_inode j [O_WRONLY, O_NOFOLLOW] w = (Inr j, w)"
    using a by (simp add: open_inode_reg)
  from a have m: "map_of es name = Some j" and i: "inodes w j = Some dj" by auto
  from copy_file_existing [OF assms(1-3,5,6) t assms(9,10) m i o]
  show "\<exists>w'. copy_file srcpfd destdir name path srcst w = (Inr (), w')
              \<and> inodes w' j
                  = Some \<lparr>i_kind = Reg cs, i_uid = i_uid n, i_gid = i_gid n,
                          i_perm = i_perm n AND 0xFFF,
                          i_atim = i_atim dj, i_mtim = i_mtim dj\<rparr>"
    using a sr assms(7) by (auto simp: stat_of_def)
qed

text \<open>
  C9. On a quiet machine, when the destination directory already has an entry of
  the name of a regular source file, whatever the name and whatever the entry's
  content or size, \<^verbatim>\<open>copy_file\<close> opens it for writing without following a
  symbolic link and only sets its owner, group and permission bits from the
  source's \<^verbatim>\<open>stat\<close>: the journal gains a change of owner and a change of mode
  and nothing else, and no other inode changes. When that open fails, the run ends
  with \<^verbatim>\<open>Failed to open file\<close>.
\<close>

theorem copy_file_existing_destination:
  assumes "sched w = []" and "take 1 path = ''/''" and "1 < length path"
    and "inodes w srcpfd = Some n" and "i_kind n = Reg bs"
    and "st_mode srcst AND S_IFMT = S_IFREG"
    and "inodes w destdir = Some dn" and "i_kind dn = Dir es" and "map_of es name = Some j"
    and "inodes w j = Some dj"
  shows "(open_inode j [O_WRONLY, O_NOFOLLOW] w = (Inr j, w) \<longrightarrow>
          copy_file srcpfd destdir name path srcst w
            = (Inr (),
               w\<lparr>inodes := (inodes w)(j \<mapsto> dj\<lparr>i_uid := st_uid srcst, i_gid := st_gid srcst,
                                                i_perm := st_mode srcst AND 0xFFF\<rparr>),
                 journal := journal w @ [Ev_chown j, Ev_chmod j]\<rparr>))
       \<and> (\<forall>e. open_inode j [O_WRONLY, O_NOFOLLOW] w = (Inl e, w) \<longrightarrow>
          copy_file srcpfd destdir name path srcst w
            = (Inl (FATAL ''Failed to open file''), w))"
  using copy_file_existing [OF assms] copy_file_unopenable [OF assms(1-5,7-9)]
  by blast


theorem copy_file_effect_witness:
  "sched (ex_world []) = []
   \<and> inodes (ex_world []) 8 = Some (ex_inode (Reg ''hello'') 5 6 0x1A4 17)
   \<and> (\<exists>w' dn'. copy_file 8 3 ''file'' ''/file'' (stat_of (ex_inode (Reg ''hello'') 5 6 0x1A4 17))
                   (ex_world []) = (Inr (), w')
          \<and> inodes w' 3 = Some dn'
          \<and> i_kind dn' = Dir [(''cert8.db'', 4), (''key3.db'', 5), (''secmod.db'', 6),
                               (''pkcs11'', 7), (''lnk'', 9), (''file'', 11)]
          \<and> inodes w' 11 = Some (ex_inode (Reg ''hello'') 5 6 0x1A4 17))
   \<and> (\<exists>w'. copy_file 8 3 ''key3.db'' ''/key3.db'' (stat_of (ex_inode (Reg ''hello'') 5 6 0x1A4 17))
                (ex_world []) = (Inr (), w')
          \<and> inodes w' 5 = Some (ex_inode (Reg ''k'') 5 6 0x1A4 14))"
proof -
  let ?n = "ex_inode (Reg ''hello'') 5 6 0x1A4 17"
  let ?dn = "ex_inode (Dir [(''cert8.db'', 4), (''key3.db'', 5), (''secmod.db'', 6),
                         (''pkcs11'', 7), (''lnk'', 9)]) 0 48 0x1E8 12"
  let ?es = "[(''cert8.db'', 4), (''key3.db'', 5), (''secmod.db'', 6),
              (''pkcs11'', 7), (''lnk'', 9::nat)]"
  have q: "sched (ex_world []) = []" by (simp add: ex_world_def)
  have s: "inodes (ex_world []) 8 = Some ?n" by (simp add: ex_world_def ex_fs_def)
  have k: "i_kind ?n = Reg ''hello''" by (simp add: ex_inode_def)
  have z: "int (length ''hello'') \<le> SSIZE_MAX" by (simp add: SSIZE_MAX_def)
  have d: "inodes (ex_world []) 3 = Some ?dn" by (simp add: ex_world_def ex_fs_def)
  have dk: "i_kind ?dn = Dir ?es" by (simp add: ex_inode_def)
  have f: "inodes (ex_world []) (next_ino (ex_world [])) = None"
    by (simp add: ex_world_def ex_fs_def)
  have nx: "next_ino (ex_world []) = 11" by (simp add: ex_world_def)
  have m1: "map_of ?es ''file'' = None" by simp
  have m2: "map_of ?es ''key3.db'' = Some 5 \<and> inodes (ex_world []) 5 = Some (ex_inode (Reg ''k'') 48 5 0x180 14)
            \<and> i_kind (ex_inode (Reg ''k'') 48 5 0x180 14) = Reg ''k''"
    by (simp add: ex_world_def ex_fs_def ex_inode_def)
  have a: "\<exists>w' dn'. copy_file 8 3 ''file'' ''/file'' (stat_of ?n) (ex_world []) = (Inr (), w')
          \<and> inodes w' 3 = Some dn'
          \<and> i_kind dn' = Dir (?es @ [(''file'', 11)])
          \<and> inodes w' 11 = Some ?n"
    using copy_file_effect [OF q _ _ _ s k refl z d dk f, of "''/file''" "''file''"] m1 nx
    by (simp add: ex_inode_def)
  have b: "\<exists>w'. copy_file 8 3 ''key3.db'' ''/key3.db'' (stat_of ?n) (ex_world []) = (Inr (), w')
          \<and> inodes w' 5 = Some (ex_inode (Reg ''k'') 5 6 0x1A4 14)"
    using copy_file_effect [OF q _ _ _ s k refl z d dk f, of "''/key3.db''" "''key3.db''"] m2
    by (simp add: ex_inode_def)
  from q s a b show ?thesis by simp
qed

theorem copy_file_existing_destination_witness:
  "open_inode 4 [O_WRONLY, O_NOFOLLOW] (ex_world []) = (Inr 4, ex_world [])
   \<and> file_bytes (ex_world []) 4 = ''awbw'' \<and> file_bytes (ex_world []) 8 = ''hello''
   \<and> fst (copy_file 8 3 ''cert8.db'' ''/cert8.db''
             (stat_of (ex_inode (Reg ''hello'') 5 6 0x1A4 17)) (ex_world [])) = Inr ()
   \<and> inodes (snd (copy_file 8 3 ''cert8.db'' ''/cert8.db''
             (stat_of (ex_inode (Reg ''hello'') 5 6 0x1A4 17)) (ex_world []))) 4
       = Some (ex_inode (Reg ''awbw'') 5 6 0x1A4 13)
   \<and> journal (snd (copy_file 8 3 ''cert8.db'' ''/cert8.db''
             (stat_of (ex_inode (Reg ''hello'') 5 6 0x1A4 17)) (ex_world [])))
       = [Ev_chown 4, Ev_chmod 4]
   \<and> open_inode 9 [O_WRONLY, O_NOFOLLOW] (ex_world []) = (Inl ELOOP, ex_world [])
   \<and> copy_file 8 3 ''lnk'' ''/lnk''
             (stat_of (ex_inode (Reg ''hello'') 5 6 0x1A4 17)) (ex_world [])
       = (Inl (FATAL ''Failed to open file''), ex_world [])"
proof -
  let ?n = "ex_inode (Reg ''hello'') 5 6 0x1A4 17"
  let ?dn = "ex_inode (Dir [(''cert8.db'', 4), (''key3.db'', 5), (''secmod.db'', 6),
                         (''pkcs11'', 7), (''lnk'', 9)]) 0 48 0x1E8 12"
  let ?es = "[(''cert8.db'', 4), (''key3.db'', 5), (''secmod.db'', 6),
              (''pkcs11'', 7), (''lnk'', 9::nat)]"
  have q: "sched (ex_world []) = []" by (simp add: ex_world_def)
  have s: "inodes (ex_world []) 8 = Some ?n" by (simp add: ex_world_def ex_fs_def)
  have k: "i_kind ?n = Reg ''hello''" by (simp add: ex_inode_def)
  have t: "st_mode (stat_of ?n) AND S_IFMT = S_IFREG"
    using stat_of_reg [OF k] by (simp add: S_ISREG_def)
  have d: "inodes (ex_world []) 3 = Some ?dn" by (simp add: ex_world_def ex_fs_def)
  have dk: "i_kind ?dn = Dir ?es" by (simp add: ex_inode_def)
  have m4: "map_of ?es ''cert8.db'' = Some 4" by simp
  have i4: "inodes (ex_world []) 4 = Some (ex_inode (Reg ''awbw'') 48 5 0x1A4 13)"
    by (simp add: ex_world_def ex_fs_def)
  have o4: "open_inode 4 [O_WRONLY, O_NOFOLLOW] (ex_world []) = (Inr 4, ex_world [])"
    using i4 by (simp add: open_inode_def ex_inode_def)
  have m9: "map_of ?es ''lnk'' = Some 9" by simp
  have i9: "inodes (ex_world []) 9 = Some (ex_inode (Lnk ''pkcs11'') 3 4 0x1FF 18)"
    by (simp add: ex_world_def ex_fs_def)
  have o9: "open_inode 9 [O_WRONLY, O_NOFOLLOW] (ex_world []) = (Inl ELOOP, ex_world [])"
    using i9 by (simp add: open_inode_def ex_inode_def)
  have fb: "file_bytes (ex_world []) 4 = ''awbw''" "file_bytes (ex_world []) 8 = ''hello''"
    by (simp_all add: file_bytes_def ex_world_def ex_fs_def ex_inode_def)
  from copy_file_existing_destination
         [OF q _ _ s k t d dk m4 i4, of "''/cert8.db''"] o4
  have r4: "copy_file 8 3 ''cert8.db'' ''/cert8.db'' (stat_of ?n) (ex_world [])
       = (Inr (),
          (ex_world [])\<lparr>inodes := (inodes (ex_world []))
               (4 \<mapsto> (ex_inode (Reg ''awbw'') 48 5 0x1A4 13)
                        \<lparr>i_uid := st_uid (stat_of ?n), i_gid := st_gid (stat_of ?n),
                          i_perm := st_mode (stat_of ?n) AND 0xFFF\<rparr>),
            journal := journal (ex_world []) @ [Ev_chown 4, Ev_chmod 4]\<rparr>)"
    by simp
  have p: "st_mode (stat_of ?n) AND 0xFFF = 0x1A4"
    using stat_of_reg [OF k] by (simp add: ex_inode_def)
  from copy_file_existing_destination
         [OF q _ _ s k t d dk m9 i9, of "''/lnk''"] o9
  have r9: "copy_file 8 3 ''lnk'' ''/lnk'' (stat_of ?n) (ex_world [])
       = (Inl (FATAL ''Failed to open file''), ex_world [])"
    by simp
  have j0: "journal (ex_world []) = []" by (simp add: ex_world_def)
  have a1: "fst (copy_file 8 3 ''cert8.db'' ''/cert8.db'' (stat_of ?n) (ex_world [])) = Inr ()"
    unfolding r4 by simp
  have a2: "inodes (snd (copy_file 8 3 ''cert8.db'' ''/cert8.db'' (stat_of ?n) (ex_world []))) 4
       = Some (ex_inode (Reg ''awbw'') 5 6 0x1A4 13)"
    unfolding r4 using p by (simp add: stat_of_def ex_inode_def)
  have a3: "journal (snd (copy_file 8 3 ''cert8.db'' ''/cert8.db'' (stat_of ?n) (ex_world [])))
       = [Ev_chown 4, Ev_chmod 4]"
    unfolding r4 using j0 by simp
  from o4 fb a1 a2 a3 o9 r9 show ?thesis by blast
qed

section \<open>Copying the three store files\<close>

lemma copy_nssdb_file_quiet:
  assumes "sched w = []" and "name \<noteq> []" and "hd name \<noteq> CHR ''/''"
    and "inodes w srcdir = Some sd" and "i_kind sd = Dir ses" and "map_of ses name = Some s"
    and "inodes w s = Some n" and "i_kind n = Reg bs" and "int (length bs) \<le> SSIZE_MAX"
    and "inodes w destdir = Some dn" and "i_kind dn = Dir es" and "map_of es name = None"
    and "inodes w (next_ino w) = None"
  shows "copy_nssdb_file cfg srcdir destdir name w
           = (Inr (),
              w\<lparr>inodes := (inodes w)
                   (destdir \<mapsto> dn\<lparr>i_kind := Dir (es @ [(name, next_ino w)]),
                                    i_mtim := now_ts w\<rparr>,
                    next_ino w \<mapsto> \<lparr>i_kind = Reg bs, i_uid = euid w, i_gid = nss_gid cfg,
                                     i_perm = 0x1B0,
                                     i_atim = i_atim n, i_mtim = i_mtim n\<rparr>),
                next_ino := Suc (next_ino w),
                journal := journal w @
                  (if bs = [] then [Ev_creat destdir name, Ev_chown (next_ino w),
                                    Ev_chmod (next_ino w), Ev_utimens (next_ino w)]
                   else [Ev_creat destdir name, Ev_fallocate (next_ino w),
                         Ev_memcpy (next_ino w) s, Ev_chown (next_ino w),
                         Ev_chmod (next_ino w), Ev_utimens (next_ino w)])\<rparr>)"
proof -
  note sr = stat_of_reg [OF assms(8)]
  have src: "\<And>w'. inodes w' s = Some n \<Longrightarrow> open_inode s [O_RDONLY, O_NOFOLLOW] w' = (Inr s, w')"
    using assms(8) by (simp add: open_inode_reg)
  have ne: "s \<noteq> next_ino w" "destdir \<noteq> next_ino w" "s \<noteq> destdir"
    using assms(7,8,10,11,13) by auto
  show ?thesis
  proof (cases "bs = []")
    case True
    with assms sr src ne show ?thesis
      by (simp add: copy_nssdb_file_def copy_file_contents_def quiet_defs stat_of_def
            fun_upd_twist)
  next
    case False
    with assms sr src ne show ?thesis
      by (simp add: copy_nssdb_file_def copy_file_contents_def quiet_defs stat_of_def
            fun_upd_twist)
  qed
qed


definition replica :: "config \<Rightarrow> world \<Rightarrow> inode \<Rightarrow> inode" where
  "replica cfg w n =
     \<lparr> i_kind = i_kind n, i_uid = euid w, i_gid = nss_gid cfg, i_perm = 0x1B0,
       i_atim = i_atim n, i_mtim = i_mtim n \<rparr>"

text \<open>
  C5, as the code has it. On a quiet machine, with the three store files regular in
  the old generation and absent from the new one, \<^verbatim>\<open>copy_nssdb_files\<close> returns
  normally; the new generation gains the entries \<^verbatim>\<open>cert8.db\<close>, \<^verbatim>\<open>key3.db\<close> and
  \<^verbatim>\<open>secmod.db\<close>, created in that order; and each new file has the content and
  both timestamps of its source, the owner it was created with, the group
  \<^verbatim>\<open>nss_gid\<close> and the mode 0660 (the number \<open>0x1B0\<close>), whatever the group and
  the mode of the source.
\<close>

theorem copy_nssdb_files_effect:
  assumes q: "sched w = []"
    and sd: "inodes w srcdir = Some sd" "i_kind sd = Dir ses"
    and src: "\<forall>name \<in> set nssdb_names. \<exists>s n bs. map_of ses name = Some s
                \<and> inodes w s = Some n \<and> i_kind n = Reg bs \<and> int (length bs) \<le> SSIZE_MAX"
    and dd: "inodes w destdir = Some dn" "i_kind dn = Dir es"
    and absent: "\<forall>name \<in> set nssdb_names. map_of es name = None"
    and fresh: "\<forall>i \<ge> next_ino w. inodes w i = None"
  shows "\<exists>w' dn'. copy_nssdb_files cfg srcdir destdir w = (Inr (), w')
           \<and> inodes w' destdir = Some dn'
           \<and> i_kind dn' = Dir (es @ [(''cert8.db'', next_ino w), (''key3.db'', next_ino w + 1),
                                     (''secmod.db'', next_ino w + 2)])
           \<and> (\<forall>k < 3. \<exists>s n. map_of ses (nssdb_names ! k) = Some s \<and> inodes w s = Some n
                  \<and> inodes w' (next_ino w + k) = Some (replica cfg w n))"
proof -
  from src obtain s1 n1 bs1 where 1: "map_of ses ''cert8.db'' = Some s1"
      "inodes w s1 = Some n1" "i_kind n1 = Reg bs1" "int (length bs1) \<le> SSIZE_MAX"
    by (auto simp: nssdb_names_def)
  from src obtain s2 n2 bs2 where 2: "map_of ses ''key3.db'' = Some s2"
      "inodes w s2 = Some n2" "i_kind n2 = Reg bs2" "int (length bs2) \<le> SSIZE_MAX"
    by (auto simp: nssdb_names_def)
  from src obtain s3 n3 bs3 where 3: "map_of ses ''secmod.db'' = Some s3"
      "inodes w s3 = Some n3" "i_kind n3 = Reg bs3" "int (length bs3) \<le> SSIZE_MAX"
    by (auto simp: nssdb_names_def)
  from absent have ab: "map_of es ''cert8.db'' = None" "map_of es ''key3.db'' = None"
      "map_of es ''secmod.db'' = None"
    by (auto simp: nssdb_names_def)
  let ?a = "next_ino w"
  from fresh have fr: "inodes w ?a = None" "inodes w (Suc ?a) = None"
      "inodes w (Suc (Suc ?a)) = None"
    by auto
  have ne: "s1 \<noteq> ?a" "s2 \<noteq> ?a" "s3 \<noteq> ?a" "s2 \<noteq> Suc ?a" "s3 \<noteq> Suc ?a"
      "s3 \<noteq> Suc (Suc ?a)" "srcdir \<noteq> ?a" "srcdir \<noteq> Suc ?a" "srcdir \<noteq> Suc (Suc ?a)"
      "destdir \<noteq> ?a" "destdir \<noteq> Suc ?a" "destdir \<noteq> Suc (Suc ?a)"
    using 1 2 3 sd dd fr by auto
  have nd: "s1 \<noteq> destdir" "s2 \<noteq> destdir" "s3 \<noteq> destdir"
    using 1 2 3 dd by auto
  have sdd: "srcdir \<noteq> destdir" using sd dd 1 ab by auto
  define dn1 where "dn1 = dn\<lparr>i_kind := Dir (es @ [(''cert8.db'', ?a)]), i_mtim := now_ts w\<rparr>"
  define w1 where "w1 = w\<lparr>inodes := (inodes w)
                   (destdir \<mapsto> dn1,
                    ?a \<mapsto> \<lparr>i_kind = Reg bs1, i_uid = euid w, i_gid = nss_gid cfg,
                             i_perm = 0x1B0, i_atim = i_atim n1, i_mtim = i_mtim n1\<rparr>),
                next_ino := Suc ?a,
                journal := journal w @
                  (if bs1 = [] then [Ev_creat destdir ''cert8.db'', Ev_chown ?a,
                                    Ev_chmod ?a, Ev_utimens ?a]
                   else [Ev_creat destdir ''cert8.db'', Ev_fallocate ?a,
                         Ev_memcpy ?a s1, Ev_chown ?a, Ev_chmod ?a, Ev_utimens ?a])\<rparr>"
  have r1: "copy_nssdb_file cfg srcdir destdir ''cert8.db'' w = (Inr (), w1)"
    unfolding w1_def dn1_def
    by (rule copy_nssdb_file_quiet [OF q _ _ sd 1 dd ab(1) fr(1)]) simp_all
  define dn2 where "dn2 = dn1\<lparr>i_kind := Dir (es @ [(''cert8.db'', ?a), (''key3.db'', Suc ?a)]),
                              i_mtim := now_ts w\<rparr>"
  define w2 where "w2 = w1\<lparr>inodes := (inodes w1)
                   (destdir \<mapsto> dn2,
                    Suc ?a \<mapsto> \<lparr>i_kind = Reg bs2, i_uid = euid w, i_gid = nss_gid cfg,
                             i_perm = 0x1B0, i_atim = i_atim n2, i_mtim = i_mtim n2\<rparr>),
                next_ino := Suc (Suc ?a),
                journal := journal w1 @
                  (if bs2 = [] then [Ev_creat destdir ''key3.db'', Ev_chown (Suc ?a),
                                    Ev_chmod (Suc ?a), Ev_utimens (Suc ?a)]
                   else [Ev_creat destdir ''key3.db'', Ev_fallocate (Suc ?a),
                         Ev_memcpy (Suc ?a) s2, Ev_chown (Suc ?a), Ev_chmod (Suc ?a),
                         Ev_utimens (Suc ?a)])\<rparr>"
  have r2: "copy_nssdb_file cfg srcdir destdir ''key3.db'' w1 = (Inr (), w2)"
  proof -
    have "copy_nssdb_file cfg srcdir destdir ''key3.db'' w1
           = (Inr (),
              w1\<lparr>inodes := (inodes w1)
                   (destdir \<mapsto> dn1\<lparr>i_kind := Dir ((es @ [(''cert8.db'', ?a)]) @ [(''key3.db'', next_ino w1)]),
                                    i_mtim := now_ts w1\<rparr>,
                    next_ino w1 \<mapsto> \<lparr>i_kind = Reg bs2, i_uid = euid w1, i_gid = nss_gid cfg,
                                     i_perm = 0x1B0,
                                     i_atim = i_atim n2, i_mtim = i_mtim n2\<rparr>),
                next_ino := Suc (next_ino w1),
                journal := journal w1 @
                  (if bs2 = [] then [Ev_creat destdir ''key3.db'', Ev_chown (next_ino w1),
                                    Ev_chmod (next_ino w1), Ev_utimens (next_ino w1)]
                   else [Ev_creat destdir ''key3.db'', Ev_fallocate (next_ino w1),
                         Ev_memcpy (next_ino w1) s2, Ev_chown (next_ino w1),
                         Ev_chmod (next_ino w1), Ev_utimens (next_ino w1)])\<rparr>)"
      by (rule copy_nssdb_file_quiet [where sd = sd and ses = ses and n = n2])
         (use q sd 2 ne nd sdd ab fr in \<open>simp_all add: w1_def dn1_def\<close>)
    then show ?thesis by (simp add: w2_def dn2_def w1_def)
  qed
  define dn3 where "dn3 = dn2\<lparr>i_kind := Dir (es @ [(''cert8.db'', ?a), (''key3.db'', Suc ?a),
                                                   (''secmod.db'', Suc (Suc ?a))]),
                              i_mtim := now_ts w\<rparr>"
  define w3 where "w3 = w2\<lparr>inodes := (inodes w2)
                   (destdir \<mapsto> dn3,
                    Suc (Suc ?a) \<mapsto> \<lparr>i_kind = Reg bs3, i_uid = euid w, i_gid = nss_gid cfg,
                             i_perm = 0x1B0, i_atim = i_atim n3, i_mtim = i_mtim n3\<rparr>),
                next_ino := Suc (Suc (Suc ?a)),
                journal := journal w2 @
                  (if bs3 = [] then [Ev_creat destdir ''secmod.db'', Ev_chown (Suc (Suc ?a)),
                                    Ev_chmod (Suc (Suc ?a)), Ev_utimens (Suc (Suc ?a))]
                   else [Ev_creat destdir ''secmod.db'', Ev_fallocate (Suc (Suc ?a)),
                         Ev_memcpy (Suc (Suc ?a)) s3, Ev_chown (Suc (Suc ?a)),
                         Ev_chmod (Suc (Suc ?a)), Ev_utimens (Suc (Suc ?a))])\<rparr>"
  have r3: "copy_nssdb_file cfg srcdir destdir ''secmod.db'' w2 = (Inr (), w3)"
  proof -
    have "copy_nssdb_file cfg srcdir destdir ''secmod.db'' w2
           = (Inr (),
              w2\<lparr>inodes := (inodes w2)
                   (destdir \<mapsto> dn2\<lparr>i_kind := Dir ((es @ [(''cert8.db'', ?a), (''key3.db'', Suc ?a)])
                                                     @ [(''secmod.db'', next_ino w2)]),
                                    i_mtim := now_ts w2\<rparr>,
                    next_ino w2 \<mapsto> \<lparr>i_kind = Reg bs3, i_uid = euid w2, i_gid = nss_gid cfg,
                                     i_perm = 0x1B0,
                                     i_atim = i_atim n3, i_mtim = i_mtim n3\<rparr>),
                next_ino := Suc (next_ino w2),
                journal := journal w2 @
                  (if bs3 = [] then [Ev_creat destdir ''secmod.db'', Ev_chown (next_ino w2),
                                    Ev_chmod (next_ino w2), Ev_utimens (next_ino w2)]
                   else [Ev_creat destdir ''secmod.db'', Ev_fallocate (next_ino w2),
                         Ev_memcpy (next_ino w2) s3, Ev_chown (next_ino w2),
                         Ev_chmod (next_ino w2), Ev_utimens (next_ino w2)])\<rparr>)"
      by (rule copy_nssdb_file_quiet [where sd = sd and ses = ses and n = n3])
         (use q sd 3 ne nd sdd ab fr in \<open>simp_all add: w2_def dn2_def w1_def dn1_def\<close>)
    then show ?thesis by (simp add: w3_def dn3_def w2_def w1_def)
  qed
  have run: "copy_nssdb_files cfg srcdir destdir w = (Inr (), w3)"
    using r1 r2 r3 by (simp add: copy_nssdb_files_def nssdb_names_def pseq_def pbind_def preturn_def)
  have d3: "inodes w3 destdir = Some dn3"
    using ne by (simp add: w3_def)
  have k3: "i_kind dn3 = Dir (es @ [(''cert8.db'', ?a), (''key3.db'', ?a + 1),
                                     (''secmod.db'', ?a + 2)])"
    by (simp add: dn3_def)
  have f0: "inodes w3 (?a + 0) = Some (replica cfg w n1)"
    using ne 1 by (simp add: w3_def w2_def w1_def replica_def)
  have f1: "inodes w3 (?a + 1) = Some (replica cfg w n2)"
    using ne 2 by (simp add: w3_def w2_def w1_def replica_def)
  have f2: "inodes w3 (?a + 2) = Some (replica cfg w n3)"
    using ne 3 by (simp add: w3_def w2_def w1_def replica_def)
  have all: "\<forall>k < 3. \<exists>s n. map_of ses (nssdb_names ! k) = Some s \<and> inodes w s = Some n
                  \<and> inodes w3 (?a + k) = Some (replica cfg w n)"
  proof (intro allI impI)
    fix k :: nat assume "k < 3"
    then consider "k = 0" | "k = 1" | "k = 2" by linarith
    then show "\<exists>s n. map_of ses (nssdb_names ! k) = Some s \<and> inodes w s = Some n
                  \<and> inodes w3 (?a + k) = Some (replica cfg w n)"
    proof cases
      case 1
      with \<open>map_of ses ''cert8.db'' = Some s1\<close> \<open>inodes w s1 = Some n1\<close> f0
      show ?thesis by (auto simp: nssdb_names_def)
    next
      case 2
      with \<open>map_of ses ''key3.db'' = Some s2\<close> \<open>inodes w s2 = Some n2\<close> f1
      show ?thesis by (auto simp: nssdb_names_def)
    next
      case 3
      with \<open>map_of ses ''secmod.db'' = Some s3\<close> \<open>inodes w s3 = Some n3\<close> f2
      show ?thesis by (auto simp: nssdb_names_def numeral_2_eq_2)
    qed
  qed
  from run d3 k3 all show ?thesis by blast
qed


theorem copy_nssdb_files_effect_witness:
  "sched (ex_world []) = []
   \<and> (\<exists>w' dn'. copy_nssdb_files ex_cfg 3 7 (ex_world []) = (Inr (), w')
         \<and> inodes w' 7 = Some dn'
         \<and> i_kind dn' = Dir [(''file'', 8), (''cert8.db'', 11), (''key3.db'', 12),
                              (''secmod.db'', 13)]
         \<and> inodes w' 12 = Some \<lparr>i_kind = Reg ''k'', i_uid = 0, i_gid = 48, i_perm = 0x1B0,
                                  i_atim = \<lparr>tv_sec = 14, tv_nsec = 1\<rparr>,
                                  i_mtim = \<lparr>tv_sec = 14, tv_nsec = 2\<rparr>\<rparr>)"
proof -
  let ?w = "ex_world []"
  let ?sd = "ex_inode (Dir [(''cert8.db'', 4), (''key3.db'', 5), (''secmod.db'', 6),
                         (''pkcs11'', 7), (''lnk'', 9)]) 0 48 0x1E8 12"
  let ?ses = "[(''cert8.db'', 4), (''key3.db'', 5), (''secmod.db'', 6),
              (''pkcs11'', 7), (''lnk'', 9::nat)]"
  let ?dn = "ex_inode (Dir [(''file'', 8)]) 5 6 0x1ED 16"
  have q: "sched ?w = []" by (simp add: ex_world_def)
  have sd: "inodes ?w 3 = Some ?sd" "i_kind ?sd = Dir ?ses"
    by (simp_all add: ex_world_def ex_fs_def ex_inode_def)
  have dd: "inodes ?w 7 = Some ?dn" "i_kind ?dn = Dir [(''file'', 8)]"
    by (simp_all add: ex_world_def ex_fs_def ex_inode_def)
  have src: "\<forall>name \<in> set nssdb_names. \<exists>s n bs. map_of ?ses name = Some s
                \<and> inodes ?w s = Some n \<and> i_kind n = Reg bs \<and> int (length bs) \<le> SSIZE_MAX"
    by (simp add: nssdb_names_def ex_world_def ex_fs_def ex_inode_def SSIZE_MAX_def)
  have absent: "\<forall>name \<in> set nssdb_names. map_of [(''file'', 8::nat)] name = None"
    by (simp add: nssdb_names_def)
  have fresh: "\<forall>i \<ge> next_ino ?w. inodes ?w i = None"
    by (auto simp: ex_world_def ex_fs_def)
  have nx: "next_ino ?w = 11" by (simp add: ex_world_def)
  from copy_nssdb_files_effect [OF q sd src dd absent fresh, of ex_cfg]
  obtain w' dn' where r: "copy_nssdb_files ex_cfg 3 7 ?w = (Inr (), w')"
    and d: "inodes w' 7 = Some dn'"
    and k: "i_kind dn' = Dir ([(''file'', 8)] @ [(''cert8.db'', next_ino ?w),
               (''key3.db'', next_ino ?w + 1), (''secmod.db'', next_ino ?w + 2)])"
    and a: "\<forall>k < 3. \<exists>s n. map_of ?ses (nssdb_names ! k) = Some s \<and> inodes ?w s = Some n
                  \<and> inodes w' (next_ino ?w + k) = Some (replica ex_cfg ?w n)"
    by blast
  have "(1::nat) < 3" by simp
  from a [rule_format, OF this]
  have "\<exists>s n. map_of ?ses (nssdb_names ! 1) = Some s \<and> inodes ?w s = Some n
                  \<and> inodes w' (next_ino ?w + 1) = Some (replica ex_cfg ?w n)" .
  then have f: "inodes w' 12 = Some \<lparr>i_kind = Reg ''k'', i_uid = 0, i_gid = 48, i_perm = 0x1B0,
                                  i_atim = \<lparr>tv_sec = 14, tv_nsec = 1\<rparr>,
                                  i_mtim = \<lparr>tv_sec = 14, tv_nsec = 2\<rparr>\<rparr>"
    by (auto simp: nssdb_names_def nx ex_world_def ex_fs_def ex_inode_def replica_def ex_cfg_def)
  from k nx have k': "i_kind dn' = Dir [(''file'', 8), (''cert8.db'', 11), (''key3.db'', 12),
                              (''secmod.db'', 13)]"
    by simp
  from q r d k' f show ?thesis by blast
qed

text \<open>
  \<^verbatim>\<open>key3.db\<close> of the example has group 5 and mode 0600 (the number \<open>0x180\<close>) in the
  old generation. Its copy in the new generation, made by \<^verbatim>\<open>copy_nssdb_files\<close>
  right after \<^verbatim>\<open>new_nssdb_dir\<close>, has group 48, the configured \<^verbatim>\<open>nss_gid\<close>, and
  mode 0660: neither is the source's.
\<close>

theorem copy_nssdb_files_mode_counterexample:
  "inodes (ex_world []) 5 = Some (ex_inode (Reg ''k'') 48 5 0x180 14)
   \<and> ex_observe [11, 13]
         (copy_nssdb_files ex_cfg 3 11 (snd (new_nssdb_dir ex_cfg 1 (ex_world []))))
       = (Inr (),
          [Some \<lparr>i_kind = Dir [(''cert8.db'', 12), (''key3.db'', 13), (''secmod.db'', 14)],
                  i_uid = 0, i_gid = 48, i_perm = 0x1E8,
                  i_atim = \<lparr>tv_sec = 1000, tv_nsec = 0\<rparr>,
                  i_mtim = \<lparr>tv_sec = 1000, tv_nsec = 0\<rparr>\<rparr>,
           Some \<lparr>i_kind = Reg ''k'', i_uid = 0, i_gid = 48, i_perm = 0x1B0,
                  i_atim = \<lparr>tv_sec = 14, tv_nsec = 1\<rparr>,
                  i_mtim = \<lparr>tv_sec = 14, tv_nsec = 2\<rparr>\<rparr>])"
  by code_simp

section \<open>Symbolic links are read back\<close>

text \<open>\<open>lnk_at i t w\<close>: inode \<open>i\<close> is a symbolic link whose target is \<open>t\<close>.\<close>

definition lnk_at :: "ino \<Rightarrow> string \<Rightarrow> world \<Rightarrow> bool" where
  "lnk_at i t w = (\<exists>n. inodes w i = Some n \<and> i_kind n = Lnk t)"

definition stops :: "err set" where
  "stops = range FATAL \<union> range ABORT"

lemma stops_simps [simp]: "FATAL m \<in> stops" "ABORT m \<in> stops"
  by (simp_all add: stops_def)

lemma lnk_at_env_step: "lnk_at i t w \<Longrightarrow> lnk_at i t (snd (env_step w))"
  unfolding lnk_at_def using env_step_lnk by blast

lemma lnk_at_journal [simp]: "lnk_at i t (log_ev e w) = lnk_at i t w"
  by (simp add: lnk_at_def log_ev_def)

lemma lnk_at_set_inode:
  "lnk_at i t w \<Longrightarrow> (j = i \<Longrightarrow> i_kind n = Lnk t) \<Longrightarrow> lnk_at i t (set_inode j n w)"
  by (auto simp: lnk_at_def set_inode_def)

lemma stat_of_lnk:
  assumes "S_ISLNK (st_mode (stat_of n))"
  shows "\<exists>t. i_kind n = Lnk t \<and> st_size (stat_of n) = int (length t)"
proof (cases "i_kind n")
  case (Special s)
  with assms show ?thesis
    by (cases s)
       (simp_all add: stat_of_def S_ISLNK_def S_IFMT_def S_IFLNK_def S_IFIFO_def S_IFCHR_def
          S_IFBLK_def S_IFSOCK_def mode_type_bits)
qed (use assms in \<open>simp_all add: stat_of_def S_ISLNK_def S_IFMT_def S_IFLNK_def S_IFREG_def
          S_IFDIR_def mode_type_bits\<close>)

lemma take_strlen: "take (strlen b) (b @ c) = cstr b"
proof -
  have "strlen b \<le> length b" by (simp add: strlen_def cstr_def length_takeWhile_le)
  then have "take (strlen b) (b @ c) = take (strlen b) b" by simp
  also have "\<dots> = cstr b"
    unfolding strlen_def cstr_def by (rule takeWhile_eq_take [symmetric])
  finally show ?thesis .
qed

lemma hoare_ex_pre: "(\<And>t. hoare (P t) m Q E) \<Longrightarrow> hoare (\<lambda>w. \<exists>t. P t w) m Q E"
  unfolding hoare_def by (fastforce split: prod.splits sum.splits)

lemma hoare_assume: "(b \<Longrightarrow> hoare P m Q E) \<Longrightarrow> hoare (\<lambda>w. b \<and> P w) m Q E"
  by (auto simp: hoare_def)

text \<open>A call that leaves a link and the journal alone.\<close>

lemma hoare_alloc:
  "hoare (\<lambda>w. lnk_at i t w \<and> journal w = J) (or_fatal alloc msg)
     (\<lambda>_ w. lnk_at i t w \<and> journal w = J) (\<lambda>e _. e \<in> stops)"
  unfolding alloc_def
  by (rule hoare_or_fatal, rule hoare_syscall)
     (auto simp: lnk_at_env_step split: option.splits)

lemma hoare_close:
  "hoare (\<lambda>w. lnk_at i t w \<and> journal w = J) (or_fatal (close fd) msg)
     (\<lambda>_ w. lnk_at i t w \<and> journal w = J) (\<lambda>e _. e \<in> stops)"
  unfolding close_def
  by (rule hoare_or_fatal, rule hoare_syscall)
     (auto simp: lnk_at_env_step split: option.splits)

lemma hoare_readlinkat:
  "hoare (\<lambda>w. lnk_at i t w \<and> journal w = J) (or_fatal (readlinkat i k) msg)
     (\<lambda>got w. got = take k t \<and> lnk_at i t w \<and> journal w = J) (\<lambda>e _. e \<in> stops)"
proof (rule hoare_or_fatal, unfold readlinkat_def, rule hoare_syscall)
  fix w assume p: "lnk_at i t w \<and> journal w = J"
  then have l: "lnk_at i t (snd (env_step w))" by (simp add: lnk_at_env_step)
  then obtain n where n: "inodes (snd (env_step w)) i = Some n" "i_kind n = Lnk t"
    by (auto simp: lnk_at_def)
  from p l n show "case fst (env_step w) of
       None \<Rightarrow> (case with_inode i (\<lambda>n w. case i_kind n of Lnk t \<Rightarrow> (Inr (take k t), w)
                                       | _ \<Rightarrow> (Inl EINVAL, w)) (snd (env_step w)) of
                 (r, w2) \<Rightarrow> (case r of Inl e \<Rightarrow> FATAL msg \<in> stops
                             | Inr got \<Rightarrow> got = take k t \<and> lnk_at i t w2 \<and> journal w2 = J))
     | Some e \<Rightarrow> (case Inl e of Inl e \<Rightarrow> FATAL msg \<in> stops
                  | Inr got \<Rightarrow> got = take k t \<and> lnk_at i t (snd (env_step w))
                                \<and> journal (snd (env_step w)) = J)"
    by (auto simp: with_inode_def split: option.splits)
qed

lemma hoare_fchown_lnk:
  "hoare (\<lambda>w. lnk_at i t w \<and> journal w = J) (or_fatal (fchown i u g) msg)
     (\<lambda>_ w. lnk_at i t w \<and> journal w = J @ [Ev_chown i]) (\<lambda>e _. e \<in> stops)"
proof (rule hoare_or_fatal, unfold fchown_def, rule hoare_syscall)
  fix w assume p: "lnk_at i t w \<and> journal w = J"
  then have l: "lnk_at i t (snd (env_step w))" by (simp add: lnk_at_env_step)
  then obtain n where n: "inodes (snd (env_step w)) i = Some n" "i_kind n = Lnk t"
    by (auto simp: lnk_at_def)
  from p l n show "case fst (env_step w) of
       None \<Rightarrow> (case with_inode i (\<lambda>n w.
           (Inr (), log_ev (Ev_chown i)
              (set_inode i (n\<lparr>i_uid := (case u of None \<Rightarrow> i_uid n | Some x \<Rightarrow> x),
                 i_gid := (case g of None \<Rightarrow> i_gid n | Some x \<Rightarrow> x)\<rparr>) w)))
           (snd (env_step w)) of
                 (r, w2) \<Rightarrow> (case r of Inl e \<Rightarrow> FATAL msg \<in> stops
                             | Inr _ \<Rightarrow> lnk_at i t w2 \<and> journal w2 = J @ [Ev_chown i]))
     | Some e \<Rightarrow> (case Inl e of Inl e \<Rightarrow> FATAL msg \<in> stops
                  | Inr _ \<Rightarrow> lnk_at i t (snd (env_step w))
                                \<and> journal (snd (env_step w)) = J @ [Ev_chown i])"
    by (auto simp: with_inode_def log_ev_def set_inode_def lnk_at_def
             split: option.splits)
qed

lemma hoare_futimens_lnk:
  "hoare (\<lambda>w. lnk_at i t w \<and> journal w = J) (or_fatal (futimens i a m) msg)
     (\<lambda>_ w. lnk_at i t w \<and> journal w = J @ [Ev_utimens i]) (\<lambda>e _. e \<in> stops)"
proof (rule hoare_or_fatal, unfold futimens_def, rule hoare_syscall)
  fix w assume p: "lnk_at i t w \<and> journal w = J"
  then have l: "lnk_at i t (snd (env_step w))" by (simp add: lnk_at_env_step)
  then obtain n where n: "inodes (snd (env_step w)) i = Some n" "i_kind n = Lnk t"
    by (auto simp: lnk_at_def)
  from p l n show "case fst (env_step w) of
       None \<Rightarrow> (case with_inode i (\<lambda>n w.
           (Inr (), log_ev (Ev_utimens i) (set_inode i (n\<lparr>i_atim := a, i_mtim := m\<rparr>) w)))
           (snd (env_step w)) of
                 (r, w2) \<Rightarrow> (case r of Inl e \<Rightarrow> FATAL msg \<in> stops
                             | Inr _ \<Rightarrow> lnk_at i t w2 \<and> journal w2 = J @ [Ev_utimens i]))
     | Some e \<Rightarrow> (case Inl e of Inl e \<Rightarrow> FATAL msg \<in> stops
                  | Inr _ \<Rightarrow> lnk_at i t (snd (env_step w))
                                \<and> journal (snd (env_step w)) = J @ [Ev_utimens i])"
    by (auto simp: with_inode_def log_ev_def set_inode_def lnk_at_def
             split: option.splits)
qed

text \<open>
  \<^verbatim>\<open>create_symlink\<close> returns a descriptor only for a symbolic link whose target is the
  string it was given, whatever other processes did to the name in between.
\<close>

lemma create_symlink_read_back:
  "hoare (\<lambda>w. journal w = J) (create_symlink dirfd target name dbdir_name path)
     (\<lambda>fd w. lnk_at fd (cstr target) w
              \<and> journal w = J @ [Ev_symlinkat dirfd name (cstr target)])
     (\<lambda>e _. e \<in> stops)"
proof -
  let ?J = "J @ [Ev_symlinkat dirfd name (cstr target)]"
  let ?E = "\<lambda>(e::err) (_::world). e \<in> stops"
  let ?Q = "\<lambda>fd w. lnk_at fd (cstr target) w \<and> journal w = ?J"
  have s1: "hoare (\<lambda>w. journal w = J)
      (or_fatal (symlinkat (cstr target) dirfd name) ''Failed to create symbolic link'')
      (\<lambda>_ w. journal w = ?J) ?E"
    unfolding symlinkat_def
    by (rule hoare_or_fatal, rule hoare_syscall)
       (auto simp: with_dir_def with_inode_def add_entry_def log_ev_def
             split: option.splits kind.splits)
  have s2: "hoare (\<lambda>w. journal w = ?J)
      (or_fatal (openat dirfd name [O_RDONLY, O_NOFOLLOW, O_PATH] 0)
         ''Failed to open symbolic link'')
      (\<lambda>_ w. journal w = ?J) ?E"
    unfolding openat_def
    by (rule hoare_or_fatal, rule hoare_syscall)
       (auto simp: with_dir_def with_inode_def open_inode_def
             split: option.splits kind.splits)
  have s3: "hoare (\<lambda>w. journal w = ?J)
      (or_fatal (fstat fd) ''Failed to read symbolic link info'')
      (\<lambda>st w. \<exists>n. (inodes w fd = Some n \<and> st = stat_of n) \<and> journal w = ?J) ?E" for fd
    unfolding fstat_def
    by (rule hoare_or_fatal, rule hoare_syscall)
       (auto simp: with_inode_def split: option.splits)
  have s4: "hoare (\<lambda>w::world. lnk_at fd t w \<and> journal w = ?J)
      (pseq (or_fatal alloc ''Memory allocation failed'')
      (pbind (or_fatal (readlinkat fd (nat (st_size st)))
                ''Failed to read symbolic link target'') (\<lambda>got.
       let new_target = got @ zeros (nat (st_size st) + 1 - length got) in
       if memcmp_ne (target @ [CHR 0x00]) new_target (nat (st_size st))
         then pfail (FATAL ''Symbolic link target changed'')
       else preturn fd))) ?Q ?E"
    if len: "st_size st = int (length t)" and eq: "nat (st_size st) = strlen target"
    for fd t st
  proof (rule hoare_pseq [OF hoare_alloc], rule hoare_pbind [OF hoare_readlinkat])
    fix got
    show "hoare (\<lambda>w. got = take (nat (st_size st)) t \<and> lnk_at fd t w \<and> journal w = ?J)
       (let new_target = got @ zeros (nat (st_size st) + 1 - length got) in
        if memcmp_ne (target @ [CHR 0x00]) new_target (nat (st_size st))
          then pfail (FATAL ''Symbolic link target changed'')
        else preturn fd) ?Q ?E"
    proof (rule hoare_assume)
      assume g: "got = take (nat (st_size st)) t"
      with len have gt: "got = t" by simp
      have a: "take (nat (st_size st)) (target @ [CHR 0x00]) = cstr target"
        unfolding eq by (rule take_strlen)
      have b: "take (nat (st_size st)) (got @ zeros (nat (st_size st) + 1 - length got)) = t"
        using gt len by simp
      show "hoare (\<lambda>w. lnk_at fd t w \<and> journal w = ?J)
       (let new_target = got @ zeros (nat (st_size st) + 1 - length got) in
        if memcmp_ne (target @ [CHR 0x00]) new_target (nat (st_size st))
          then pfail (FATAL ''Symbolic link target changed'')
        else preturn fd) ?Q ?E"
        unfolding Let_def memcmp_ne_def a b
        by (rule hoare_if, rule hoare_pfail, simp, rule hoare_preturn, simp)
    qed
  qed
  have s5: "hoare (\<lambda>w. \<exists>n. (inodes w fd = Some n \<and> st = stat_of n) \<and> journal w = ?J)
     (if \<not> S_ISLNK (st_mode st) then pfail (FATAL ''Not a symbolic link'')
      else if st_size st \<le> 0 \<or> st_size st > SSIZE_MAX - 1
        then pfail (FATAL ''Symbolic link target size invalid'')
      else if nat (st_size st) \<noteq> strlen target
        then pfail (FATAL ''Symbolic link target changed'')
      else
      pseq (or_fatal alloc ''Memory allocation failed'')
      (pbind (or_fatal (readlinkat fd (nat (st_size st)))
                ''Failed to read symbolic link target'') (\<lambda>got.
       let new_target = got @ zeros (nat (st_size st) + 1 - length got) in
       if memcmp_ne (target @ [CHR 0x00]) new_target (nat (st_size st))
         then pfail (FATAL ''Symbolic link target changed'')
       else preturn fd))) ?Q ?E" for fd st
  proof (rule hoare_if, rule hoare_pfail, simp, rule hoare_if, rule hoare_pfail, simp,
         rule hoare_if, rule hoare_pfail, simp)
    assume l: "\<not> \<not> S_ISLNK (st_mode st)" and eq: "\<not> nat (st_size st) \<noteq> strlen target"
    show "hoare (\<lambda>w. \<exists>n. (inodes w fd = Some n \<and> st = stat_of n) \<and> journal w = ?J)
      (pseq (or_fatal alloc ''Memory allocation failed'')
      (pbind (or_fatal (readlinkat fd (nat (st_size st)))
                ''Failed to read symbolic link target'') (\<lambda>got.
       let new_target = got @ zeros (nat (st_size st) + 1 - length got) in
       if memcmp_ne (target @ [CHR 0x00]) new_target (nat (st_size st))
         then pfail (FATAL ''Symbolic link target changed'')
       else preturn fd))) ?Q ?E"
    proof (rule hoareI)
      fix w :: world
      assume "\<exists>n. (inodes w fd = Some n \<and> st = stat_of n) \<and> journal w = ?J"
      then obtain n where n: "inodes w fd = Some n" "st = stat_of n" "journal w = ?J"
        by blast
      from l n(2) stat_of_lnk [of n] obtain t
        where t: "i_kind n = Lnk t" "st_size st = int (length t)" by auto
      from n t have p: "lnk_at fd t w \<and> journal w = ?J" by (auto simp: lnk_at_def)
      from eq have "nat (st_size st) = strlen target" by simp
      from s4 [OF t(2) this] p
      show "case (pseq (or_fatal alloc ''Memory allocation failed'')
      (pbind (or_fatal (readlinkat fd (nat (st_size st)))
                ''Failed to read symbolic link target'') (\<lambda>got.
       let new_target = got @ zeros (nat (st_size st) + 1 - length got) in
       if memcmp_ne (target @ [CHR 0x00]) new_target (nat (st_size st))
         then pfail (FATAL ''Symbolic link target changed'')
       else preturn fd))) w of (Inl e, w') \<Rightarrow> e \<in> stops | (Inr x, w') \<Rightarrow> ?Q x w'"
        by (simp add: hoare_def)
    qed
  qed
  show ?thesis
    unfolding create_symlink_def
    by (rule hoare_pseq [OF _ hoare_pseq [OF s1 hoare_pbind [OF s2 hoare_pbind [OF s3 s5]]]],
        rule hoare_passert) simp_all
qed
lemma cstr_zeros: "cstr (a @ zeros n) = cstr a"
proof (cases "\<forall>x\<in>set a. x \<noteq> CHR 0x00")
  case True
  then have tw: "takeWhile (\<lambda>c. c \<noteq> CHR 0x00) a = a" by (simp only: takeWhile_eq_all_conv)
  from True have "takeWhile (\<lambda>c. c \<noteq> CHR 0x00) (a @ zeros n)
      = a @ takeWhile (\<lambda>c. c \<noteq> CHR 0x00) (zeros n)"
    by (intro takeWhile_append2) simp
  also have "takeWhile (\<lambda>c. c \<noteq> CHR 0x00) (zeros n) = []"
    by (cases n) (simp_all add: zeros_def)
  finally show ?thesis unfolding cstr_def tw by simp
next
  case False
  then obtain x where "x \<in> set a" "\<not> x \<noteq> CHR 0x00" by blast
  then show ?thesis unfolding cstr_def by (rule takeWhile_append1)
qed

lemma hoare_get_new_dbdir_name:
  "(\<And>x. hoare P (f x) Q E) \<Longrightarrow> hoare P (pbind get_new_dbdir_name f) Q E"
  by (auto simp: hoare_def pbind_def get_new_dbdir_name_def)

lemma copy_metadata_lnk:
  assumes "S_ISLNK (st_mode srcst)"
  shows "hoare (\<lambda>w. lnk_at dest t w \<and> journal w = J)
     (copy_metadata src dest path srcst True)
     (\<lambda>_ w. lnk_at dest t w \<and> journal w = J @ [Ev_chown dest, Ev_utimens dest])
     (\<lambda>e _. e \<in> stops)"
  unfolding copy_metadata_def using assms
  apply simp
  apply (rule hoare_pseq [where R = "\<lambda>w. lnk_at dest t w \<and> journal w = J"])
   apply (rule hoare_passert; simp)
  apply (rule hoare_pseq [OF hoare_fchown_lnk])
  apply (rule hoare_pseq [OF hoare_alloc])
  apply (rule hoare_pseq [OF hoare_alloc])
  apply (rule hoare_weaken
      [OF hoare_futimens_lnk [where t = t and J = "J @ [Ev_chown dest]"]]; simp)
  done

text \<open>
  C7. \<^verbatim>\<open>copy_link\<close> replicates one symbolic link of the old tree: it reads the
  source link's target, creates the destination link with that value, opens what is now
  under the destination name, reads its target back and compares it, length first, with
  the value read from the source. Whatever other processes do in between, the call
  returns normally only if the link it opened has exactly the target read from the
  source; every other end is a fatal termination (or a failed assertion on the path
  argument). On a normal return the call has created the link with the source's value
  and has then set owner and timestamps of the link it read back, and nothing else.
\<close>

theorem copy_link_read_back:
  assumes "copy_link src destdir name path srcst w = (r, w')"
    and "lnk_at src ts w" and "S_ISLNK (st_mode srcst)"
  shows "case r of
           Inr _ \<Rightarrow>
             (\<exists>dest. lnk_at dest (cstr (take (nat (st_size srcst)) ts)) w'
                \<and> journal w' = journal w @
                    [Ev_symlinkat destdir name (cstr (take (nat (st_size srcst)) ts)),
                     Ev_chown dest, Ev_utimens dest])
         | Inl e \<Rightarrow> e \<in> stops"
proof -
  let ?k = "nat (st_size srcst)"
  let ?t = "cstr (take ?k ts)"
  let ?J = "journal w @ [Ev_symlinkat destdir name ?t]"
  let ?E = "\<lambda>(e::err) (_::world). e \<in> stops"
  let ?Q = "\<lambda>(_::unit) w'. \<exists>dest. lnk_at dest ?t w'
              \<and> journal w' = ?J @ [Ev_chown dest, Ev_utimens dest]"
  have tail: "hoare (\<lambda>w'::world. journal w' = journal w)
      (pbind (create_symlink destdir (take ?k ts @ zeros z) name new_name path) (\<lambda>dest.
       pseq (copy_metadata src dest path srcst True)
            (or_fatal (close dest) ''Failed to close symbolic link''))) ?Q ?E"
    for z new_name
  proof (rule hoare_pbind [OF create_symlink_read_back], unfold cstr_zeros)
    fix dest
    show "hoare (\<lambda>w'. lnk_at dest ?t w' \<and> journal w' = ?J)
       (pseq (copy_metadata src dest path srcst True)
            (or_fatal (close dest) ''Failed to close symbolic link'')) ?Q ?E"
      by (rule hoare_pseq [OF copy_metadata_lnk [OF assms(3)]],
          rule hoare_weaken [OF hoare_close]) auto
  qed
  have rd: "hoare (\<lambda>w'::world. lnk_at src ts w' \<and> journal w' = journal w)
      (pbind (or_fatal (readlinkat src ?k) ''Failed to read symbolic link target'') (\<lambda>got.
       let target = got @ zeros (?k + 1 - length got) in
       pbind get_new_dbdir_name (\<lambda>new_name.
       pbind (create_symlink destdir target name new_name path) (\<lambda>dest.
       pseq (copy_metadata src dest path srcst True)
            (or_fatal (close dest) ''Failed to close symbolic link''))))) ?Q ?E"
  proof (rule hoare_pbind [OF hoare_readlinkat], rule hoare_assume)
    fix got assume g: "got = take ?k ts"
    show "hoare (\<lambda>w'. lnk_at src ts w' \<and> journal w' = journal w)
      (let target = got @ zeros (?k + 1 - length got) in
       pbind get_new_dbdir_name (\<lambda>new_name.
       pbind (create_symlink destdir target name new_name path) (\<lambda>dest.
       pseq (copy_metadata src dest path srcst True)
            (or_fatal (close dest) ''Failed to close symbolic link'')))) ?Q ?E"
      unfolding Let_def g
      by (rule hoare_get_new_dbdir_name, rule hoare_pre [OF tail]) simp
  qed
  have all: "hoare (\<lambda>w'::world. lnk_at src ts w' \<and> journal w' = journal w)
     (copy_link src destdir name path srcst) ?Q ?E"
    unfolding copy_link_def
    apply (rule hoare_pseq [where R = "\<lambda>w'. lnk_at src ts w' \<and> journal w' = journal w"])
     apply (rule hoare_passert; simp)
    apply (rule hoare_if)
     apply (rule hoare_pfail; simp)
    apply (rule hoare_pseq [OF hoare_alloc])
    apply (rule rd)
    done
  show ?thesis
  proof (cases r)
    case (Inl e)
    with hoareD_Inl [OF all _ assms(1) [unfolded Inl]] assms(2) show ?thesis by simp
  next
    case (Inr u)
    with hoareD_Inr [OF all _ assms(1) [unfolded Inr]] assms(2) show ?thesis by simp
  qed
qed
definition ex_link_world :: "step list \<Rightarrow> world" where
  "ex_link_world ss = (ex_world ss)\<lparr>new_dbdir_name := ''alias-20261030090807''\<rparr>"

definition ex_link_stat :: stat where
  "ex_link_stat = stat_of (ex_inode (Lnk ''pkcs11'') 3 4 0x1FF 18)"

theorem copy_link_read_back_witness:
  "lnk_at 9 ''pkcs11'' (ex_link_world [])
   \<and> S_ISLNK (st_mode ex_link_stat)
   \<and> fst (copy_link 9 7 ''lnk'' ''/pkcs11/lnk'' ex_link_stat (ex_link_world [])) = Inr ()
   \<and> (\<exists>dest. lnk_at dest ''pkcs11''
                (snd (copy_link 9 7 ''lnk'' ''/pkcs11/lnk'' ex_link_stat (ex_link_world [])))
         \<and> journal (snd (copy_link 9 7 ''lnk'' ''/pkcs11/lnk'' ex_link_stat
                            (ex_link_world [])))
             = [Ev_symlinkat 7 ''lnk'' ''pkcs11'', Ev_chown dest, Ev_utimens dest])"
proof -
  let ?w = "ex_link_world []"
  let ?p = "copy_link 9 7 ''lnk'' ''/pkcs11/lnk'' ex_link_stat ?w"
  have a: "lnk_at 9 ''pkcs11'' ?w"
    by (simp add: lnk_at_def ex_link_world_def ex_world_def ex_fs_def ex_inode_def)
  have b: "S_ISLNK (st_mode ex_link_stat)"
    by (simp add: ex_link_stat_def stat_of_def ex_inode_def S_ISLNK_def S_IFLNK_def S_IFMT_def)
  have c: "fst ?p = Inr ()" by code_simp
  have d: "nat (st_size ex_link_stat) = 6"
    by (simp add: ex_link_stat_def stat_of_def ex_inode_def)
  have e: "cstr ''pkcs11'' = ''pkcs11''" by (simp add: cstr_def)
  have j: "journal ?w = []" by (simp add: ex_link_world_def ex_world_def)
  from copy_link_read_back [OF fst_eqD [OF c] a b] a b c show ?thesis
    by (simp add: d e j)
qed

text \<open>
  The check is what stops the run when another process replaces the new link before it
  is opened: here the name is rebound, between \<^verbatim>\<open>symlinkat\<close> and \<^verbatim>\<open>openat\<close>, to a link
  of the same length with another target, and to a link of another length.
\<close>

definition ex_swap :: "string \<Rightarrow> step list" where
  "ex_swap t =
     replicate 3 ex_ok @
     [\<lparr> env_writes = [(20, ex_inode (Lnk t) 0 0 0x1FF 30),
                      (7, ex_inode (Dir [(''file'', 8), (''lnk'', 20)]) 5 6 0x1ED 30)],
        fault = None \<rparr>]"

lemma copy_link_detects_swap:
  "fst (copy_link 9 7 ''lnk'' ''/pkcs11/lnk'' ex_link_stat (ex_link_world (ex_swap ''pkcs12'')))
     = Inl (FATAL ''Symbolic link target changed'')"
  "fst (copy_link 9 7 ''lnk'' ''/pkcs11/lnk'' ex_link_stat (ex_link_world (ex_swap ''pkcs'')))
     = Inl (FATAL ''Symbolic link target changed'')"
  by code_simp+

section \<open>The alias swap\<close>

text \<open>
  What a reader of the alias sees: the target of the symbolic link that the name
  \<^verbatim>\<open>alias\<close> is bound to in the configuration directory, if there is one.
\<close>

definition dir_at :: "ino \<Rightarrow> (string \<times> ino) list \<Rightarrow> world \<Rightarrow> bool" where
  "dir_at c es w = (\<exists>d. inodes w c = Some d \<and> i_kind d = Dir es)"

definition alias_target :: "ino \<Rightarrow> world \<Rightarrow> string option" where
  "alias_target c w =
     (case inodes w c of
        None \<Rightarrow> None
      | Some d \<Rightarrow>
          (case i_kind d of
             Dir es \<Rightarrow>
               (case map_of es ''alias'' of
                  None \<Rightarrow> None
                | Some a \<Rightarrow>
                    (case inodes w a of
                       None \<Rightarrow> None
                     | Some n \<Rightarrow> (case i_kind n of Lnk t \<Rightarrow> Some t | _ \<Rightarrow> None)))
           | _ \<Rightarrow> None))"

definition lnk_owned :: "ino \<Rightarrow> string \<Rightarrow> nat \<Rightarrow> nat \<Rightarrow> world \<Rightarrow> bool" where
  "lnk_owned i t u g w =
     (\<exists>n. inodes w i = Some n \<and> i_kind n = Lnk t \<and> i_uid n = u \<and> i_gid n = g)"

text \<open>
  The states the swap goes through, up to what is left of the schedule: the entries of
  the configuration directory, the old link, the journal, and every inode but the
  directory and the new link \<open>k\<close> as it was (\<open>fr\<close>) when the swap began.
\<close>

definition swap_state ::
  "ino \<Rightarrow> (ino \<Rightarrow> inode option) \<Rightarrow> ino \<Rightarrow> (string \<times> ino) list \<Rightarrow> ino \<Rightarrow> string
     \<Rightarrow> event list \<Rightarrow> world \<Rightarrow> bool" where
  "swap_state k fr c es a old J w =
     (faults_only w \<and> dir_at c es w \<and> lnk_at a old w \<and> journal w = J
      \<and> (\<forall>i. i \<noteq> c \<and> i \<noteq> k \<longrightarrow> inodes w i = fr i))"

lemma alias_target_old:
  "dir_at c es w \<Longrightarrow> map_of es ''alias'' = Some a \<Longrightarrow> lnk_at a t w
   \<Longrightarrow> alias_target c w = Some t"
  by (auto simp: dir_at_def lnk_at_def alias_target_def)

lemma sched_update_preds [simp]:
  "lnk_at i t (w\<lparr>sched := s\<rparr>) = lnk_at i t w"
  "dir_at c es (w\<lparr>sched := s\<rparr>) = dir_at c es w"
  "lnk_owned i t u g (w\<lparr>sched := s\<rparr>) = lnk_owned i t u g w"
  by (simp_all add: lnk_at_def dir_at_def lnk_owned_def)

lemma swap_state_tl:
  "swap_state k fr c es a old J w \<Longrightarrow> swap_state k fr c es a old J (w\<lparr>sched := tl (sched w)\<rparr>)"
  by (simp add: swap_state_def)

lemma hoare_syscall_fo:
  assumes fo: "\<And>w. P w \<Longrightarrow> faults_only w"
    and st: "\<And>w. P w \<Longrightarrow> P (w\<lparr>sched := tl (sched w)\<rparr>)"
    and fl: "\<And>w e. P w \<Longrightarrow> Q (Inl e) w"
    and rn: "\<And>w. P w \<Longrightarrow> (case op w of (r, w2) \<Rightarrow> Q r w2)"
  shows "hoare P (syscall op) Q E"
proof (rule hoare_syscall)
  fix w assume p: "P w"
  have e: "snd (env_step w) = w\<lparr>sched := tl (sched w)\<rparr>"
    by (rule env_step_faults_only [OF fo [OF p]])
  have p': "P (snd (env_step w))" unfolding e by (rule st [OF p])
  show "case fst (env_step w) of
          Some e \<Rightarrow> Q (Inl e) (snd (env_step w))
        | None \<Rightarrow> (case op (snd (env_step w)) of (r, w2) \<Rightarrow> Q r w2)"
    using fl [OF p'] rn [OF p'] by (simp split: option.splits)
qed

lemma hoare_call_fo:
  assumes fo: "\<And>w. P w \<Longrightarrow> faults_only w"
    and st: "\<And>w. P w \<Longrightarrow> P (w\<lparr>sched := tl (sched w)\<rparr>)"
    and fl: "\<And>w. P w \<Longrightarrow> E (FATAL msg) w"
    and rn: "\<And>w. P w \<Longrightarrow>
               (case op w of (Inl e, w2) \<Rightarrow> E (FATAL msg) w2 | (Inr x, w2) \<Rightarrow> Q x w2)"
  shows "hoare P (or_fatal (syscall op) msg) Q E"
proof (rule hoare_or_fatal, rule hoare_syscall_fo [where P = P])
  fix w assume p: "P w"
  from fo [OF p] show "faults_only w" .
  from st [OF p] show "P (w\<lparr>sched := tl (sched w)\<rparr>)" .
  from fl [OF p] show "case Inl e of Inl e \<Rightarrow> E (FATAL msg) w | Inr x \<Rightarrow> Q x w" for e
    by simp
  from rn [OF p]
  show "case op w of (r, w2) \<Rightarrow> (case r of Inl e \<Rightarrow> E (FATAL msg) w2 | Inr x \<Rightarrow> Q x w2)"
    by (simp split: prod.splits sum.splits)
qed

text \<open>The three states before the rename, and what they have in common.\<close>

definition swap_before ::
  "(ino \<Rightarrow> inode option) \<Rightarrow> ino \<Rightarrow> (string \<times> ino) list \<Rightarrow> ino \<Rightarrow> string \<Rightarrow> event list
     \<Rightarrow> ino \<Rightarrow> string \<Rightarrow> string \<Rightarrow> world \<Rightarrow> bool" where
  "swap_before fr c es a old J k name new w =
     (swap_state k fr c es a old J w
      \<or> swap_state k fr c (es @ [(name, k)]) a old (J @ [Ev_symlinkat c name new]) w
      \<or> swap_state k fr c (es @ [(name, k)]) a old (J @ [Ev_symlinkat c name new, Ev_chown k]) w)"

lemma create_symlink_faults_only:
  assumes ak: "a \<noteq> k"
  shows "hoare (\<lambda>w. swap_state k fr c es a old J w \<and> next_ino w = k \<and> inodes w k = None)
     (create_symlink c target name dbdir_name path)
     (\<lambda>fd w. fd = k \<and> map_of es name = None
              \<and> swap_state k fr c (es @ [(name, k)]) a old
                   (J @ [Ev_symlinkat c name (cstr target)]) w
              \<and> lnk_at k (cstr target) w)
     (\<lambda>e w. e \<in> stops \<and> swap_before fr c es a old J k name (cstr target) w)"
proof -
  let ?new = "cstr target"
  let ?S0 = "\<lambda>w::world. swap_state k fr c es a old J w \<and> next_ino w = k \<and> inodes w k = None"
  let ?S1 = "\<lambda>w::world. map_of es name = None
      \<and> swap_state k fr c (es @ [(name, k)]) a old (J @ [Ev_symlinkat c name ?new]) w
      \<and> lnk_at k ?new w"
  let ?E = "\<lambda>(e::err) w. e \<in> stops \<and> swap_before fr c es a old J k name ?new w"
  let ?Q = "\<lambda>fd w. fd = k \<and> ?S1 w"
  have s0: "hoare ?S0 (passert b msg) (\<lambda>_. ?S0) ?E" for b msg
    by (rule hoare_passert) (simp_all add: swap_before_def)
  have s1: "hoare ?S0
      (or_fatal (symlinkat ?new c name) ''Failed to create symbolic link'')
      (\<lambda>_. ?S1) ?E"
    unfolding symlinkat_def
  proof (rule hoare_call_fo)
    fix w assume p: "?S0 w"
    then show "faults_only w" by (simp add: swap_state_def)
    from p show "?S0 (w\<lparr>sched := tl (sched w)\<rparr>)" by (simp add: swap_state_def)
    from p show "?E (FATAL ''Failed to create symbolic link'') w"
      by (simp add: swap_before_def)
    from p obtain d where d: "inodes w c = Some d" "i_kind d = Dir es"
      by (auto simp: swap_state_def dir_at_def)
    from p obtain n where n: "inodes w a = Some n" "i_kind n = Lnk old"
      by (auto simp: swap_state_def lnk_at_def)
    from p d have ck: "c \<noteq> k" by auto
    from d n have ca: "c \<noteq> a" by auto
    from p d n ck ca ak
    show "case with_dir c (\<lambda>d es w.
             case map_of es name of
               Some i \<Rightarrow> (Inl EEXIST, w)
             | None \<Rightarrow>
                 if ?new = [] then (Inl ENOENT, w)
                 else (Inr (), log_ev (Ev_symlinkat c name ?new)
                         (add_entry c d es name
                            ((fresh_inode (Lnk ?new) 0x1FF w)\<lparr>i_perm := 0x1FF\<rparr>) w))) w of
            (Inl e, w2) \<Rightarrow> ?E (FATAL ''Failed to create symbolic link'') w2
          | (Inr x, w2) \<Rightarrow> ?S1 w2"
      by (auto simp: with_dir_def with_inode_def swap_before_def swap_state_def dir_at_def
            lnk_at_def add_entry_def log_ev_def fresh_inode_def faults_only_def
            split: option.splits)
  qed
  have s2: "hoare ?S1
      (or_fatal (openat c name [O_RDONLY, O_NOFOLLOW, O_PATH] 0)
         ''Failed to open symbolic link'') ?Q ?E"
    unfolding openat_def
  proof (rule hoare_call_fo)
    fix w assume p: "?S1 w"
    then show "faults_only w" by (simp add: swap_state_def)
    from p show "?S1 (w\<lparr>sched := tl (sched w)\<rparr>)" by (simp add: swap_state_def)
    from p show "?E (FATAL ''Failed to open symbolic link'') w"
      by (simp add: swap_before_def)
    from p obtain d where d: "inodes w c = Some d" "i_kind d = Dir (es @ [(name, k)])"
      by (auto simp: swap_state_def dir_at_def)
    from p obtain n where n: "inodes w k = Some n" "i_kind n = Lnk ?new"
      by (auto simp: lnk_at_def)
    from p have m: "map_of (es @ [(name, k)]) name = Some k"
      by (simp add: map_add_def)
    from p d n m
    show "case with_dir c (\<lambda>d es w.
             case map_of es name of
               None \<Rightarrow>
                 if O_CREAT \<in> set [O_RDONLY, O_NOFOLLOW, O_PATH]
                 then (Inr (next_ino w),
                       log_ev (Ev_creat c name)
                         (add_entry c d es name (fresh_inode (Reg []) 0 w) w))
                 else (Inl ENOENT, w)
             | Some i \<Rightarrow>
                 if O_CREAT \<in> set [O_RDONLY, O_NOFOLLOW, O_PATH]
                    \<and> O_EXCL \<in> set [O_RDONLY, O_NOFOLLOW, O_PATH] then (Inl EEXIST, w)
                 else open_inode i [O_RDONLY, O_NOFOLLOW, O_PATH] w) w of
            (Inl e, w2) \<Rightarrow> ?E (FATAL ''Failed to open symbolic link'') w2
          | (Inr x, w2) \<Rightarrow> ?Q x w2"
      by (simp add: with_dir_def with_inode_def open_inode_def swap_before_def)
  qed
  have s3: "hoare ?S1
      (or_fatal (fstat k) ''Failed to read symbolic link info'')
      (\<lambda>st w. (S_ISLNK (st_mode st) \<and> st_size st = int (length ?new)) \<and> ?S1 w) ?E"
    unfolding fstat_def
  proof (rule hoare_call_fo)
    fix w assume p: "?S1 w"
    then show "faults_only w" by (simp add: swap_state_def)
    from p show "?S1 (w\<lparr>sched := tl (sched w)\<rparr>)" by (simp add: swap_state_def)
    from p show "?E (FATAL ''Failed to read symbolic link info'') w"
      by (simp add: swap_before_def)
    from p obtain n where n: "inodes w k = Some n" "i_kind n = Lnk ?new"
      by (auto simp: lnk_at_def)
    then have "S_ISLNK (st_mode (stat_of n)) \<and> st_size (stat_of n) = int (length ?new)"
      by (simp add: stat_of_def S_ISLNK_def S_IFMT_def S_IFLNK_def mode_type_bits)
    with p n
    show "case with_inode k (\<lambda>n w. (Inr (stat_of n), w)) w of
            (Inl e, w2) \<Rightarrow> ?E (FATAL ''Failed to read symbolic link info'') w2
          | (Inr st, w2) \<Rightarrow>
              (S_ISLNK (st_mode st) \<and> st_size st = int (length ?new)) \<and> ?S1 w2"
      by (simp add: with_inode_def)
  qed
  have s4: "hoare ?S1 (or_fatal alloc ''Memory allocation failed'') (\<lambda>_. ?S1) ?E"
    unfolding alloc_def
    by (rule hoare_call_fo) (simp_all add: swap_state_def swap_before_def)
  have s5: "hoare ?S1
      (or_fatal (readlinkat k z) ''Failed to read symbolic link target'')
      (\<lambda>got w. got = take z ?new \<and> ?S1 w) ?E" for z
    unfolding readlinkat_def
  proof (rule hoare_call_fo)
    fix w assume p: "?S1 w"
    then show "faults_only w" by (simp add: swap_state_def)
    from p show "?S1 (w\<lparr>sched := tl (sched w)\<rparr>)" by (simp add: swap_state_def)
    from p show "?E (FATAL ''Failed to read symbolic link target'') w"
      by (simp add: swap_before_def)
    from p obtain n where n: "inodes w k = Some n" "i_kind n = Lnk ?new"
      by (auto simp: lnk_at_def)
    with p
    show "case with_inode k (\<lambda>n w.
             case i_kind n of Lnk t \<Rightarrow> (Inr (take z t), w) | _ \<Rightarrow> (Inl EINVAL, w)) w of
            (Inl e, w2) \<Rightarrow> ?E (FATAL ''Failed to read symbolic link target'') w2
          | (Inr got, w2) \<Rightarrow> got = take z ?new \<and> ?S1 w2"
      by (simp add: with_inode_def)
  qed
  have s6: "hoare (\<lambda>w. (S_ISLNK (st_mode st) \<and> st_size st = int (length ?new)) \<and> ?S1 w)
     (if \<not> S_ISLNK (st_mode st) then pfail (FATAL ''Not a symbolic link'')
      else if st_size st \<le> 0 \<or> st_size st > SSIZE_MAX - 1
        then pfail (FATAL ''Symbolic link target size invalid'')
      else if nat (st_size st) \<noteq> strlen target
        then pfail (FATAL ''Symbolic link target changed'')
      else
      pseq (or_fatal alloc ''Memory allocation failed'')
      (pbind (or_fatal (readlinkat k (nat (st_size st)))
                ''Failed to read symbolic link target'') (\<lambda>got.
       let new_target = got @ zeros (nat (st_size st) + 1 - length got) in
       if memcmp_ne (target @ [CHR 0x00]) new_target (nat (st_size st))
         then pfail (FATAL ''Symbolic link target changed'')
       else preturn k))) ?Q ?E" for st
  proof (rule hoare_pre [where P' = ?S1])
    have fin: "hoare (\<lambda>w. got = take (nat (st_size st)) ?new \<and> ?S1 w)
       (let new_target = got @ zeros (nat (st_size st) + 1 - length got) in
        if memcmp_ne (target @ [CHR 0x00]) new_target (nat (st_size st))
          then pfail (FATAL ''Symbolic link target changed'')
        else preturn k) ?Q ?E" for got
      unfolding Let_def
      by (rule hoare_if, rule hoare_pfail, simp add: swap_before_def, rule hoare_preturn, simp)
    show "hoare ?S1
     (if \<not> S_ISLNK (st_mode st) then pfail (FATAL ''Not a symbolic link'')
      else if st_size st \<le> 0 \<or> st_size st > SSIZE_MAX - 1
        then pfail (FATAL ''Symbolic link target size invalid'')
      else if nat (st_size st) \<noteq> strlen target
        then pfail (FATAL ''Symbolic link target changed'')
      else
      pseq (or_fatal alloc ''Memory allocation failed'')
      (pbind (or_fatal (readlinkat k (nat (st_size st)))
                ''Failed to read symbolic link target'') (\<lambda>got.
       let new_target = got @ zeros (nat (st_size st) + 1 - length got) in
       if memcmp_ne (target @ [CHR 0x00]) new_target (nat (st_size st))
         then pfail (FATAL ''Symbolic link target changed'')
       else preturn k))) ?Q ?E"
      by (rule hoare_if, rule hoare_pfail, simp add: swap_before_def,
          rule hoare_if, rule hoare_pfail, simp add: swap_before_def,
          rule hoare_if, rule hoare_pfail, simp add: swap_before_def,
          rule hoare_pseq [OF s4 hoare_pbind [OF s5 fin]])
  qed simp
  have s7: "hoare (\<lambda>w. fd = k \<and> ?S1 w)
     (pbind (or_fatal (fstat fd) ''Failed to read symbolic link info'') (\<lambda>st.
      if \<not> S_ISLNK (st_mode st) then pfail (FATAL ''Not a symbolic link'')
      else if st_size st \<le> 0 \<or> st_size st > SSIZE_MAX - 1
        then pfail (FATAL ''Symbolic link target size invalid'')
      else if nat (st_size st) \<noteq> strlen target
        then pfail (FATAL ''Symbolic link target changed'')
      else
      pseq (or_fatal alloc ''Memory allocation failed'')
      (pbind (or_fatal (readlinkat fd (nat (st_size st)))
                ''Failed to read symbolic link target'') (\<lambda>got.
       let new_target = got @ zeros (nat (st_size st) + 1 - length got) in
       if memcmp_ne (target @ [CHR 0x00]) new_target (nat (st_size st))
         then pfail (FATAL ''Symbolic link target changed'')
       else preturn fd)))) ?Q ?E" for fd
  proof (rule hoare_assume)
    assume fk: "fd = k"
    show "hoare ?S1
     (pbind (or_fatal (fstat fd) ''Failed to read symbolic link info'') (\<lambda>st.
      if \<not> S_ISLNK (st_mode st) then pfail (FATAL ''Not a symbolic link'')
      else if st_size st \<le> 0 \<or> st_size st > SSIZE_MAX - 1
        then pfail (FATAL ''Symbolic link target size invalid'')
      else if nat (st_size st) \<noteq> strlen target
        then pfail (FATAL ''Symbolic link target changed'')
      else
      pseq (or_fatal alloc ''Memory allocation failed'')
      (pbind (or_fatal (readlinkat fd (nat (st_size st)))
                ''Failed to read symbolic link target'') (\<lambda>got.
       let new_target = got @ zeros (nat (st_size st) + 1 - length got) in
       if memcmp_ne (target @ [CHR 0x00]) new_target (nat (st_size st))
         then pfail (FATAL ''Symbolic link target changed'')
       else preturn fd)))) ?Q ?E"
      unfolding fk by (rule hoare_pbind [OF s3 s6])
  qed
  show ?thesis
    unfolding create_symlink_def
    by (rule hoare_pseq [OF s0 hoare_pseq [OF s1 hoare_pbind [OF s2 s7]]])
qed
lemma map_of_filter_fst:
  "map_of (filter (\<lambda>p. fst p \<noteq> old) es) = (map_of es)(old := None)"
  by (induction es) (auto simp: fun_eq_iff)

lemma map_of_replace:
  "new \<in> fst ` set es \<Longrightarrow>
   map_of (map (\<lambda>p. if fst p = new then (new, i) else p) es) = (map_of es)(new \<mapsto> i)"
proof (induction es)
  case Nil
  then show ?case by simp
next
  case (Cons p es)
  show ?case
  proof (cases "new \<in> fst ` set es")
    case True
    with Cons.IH show ?thesis by (auto simp: fun_eq_iff)
  next
    case False
    then have same: "map (\<lambda>p. if fst p = new then (new, i) else p) es = es"
      by (induction es) auto
    from False Cons.prems have "fst p = new" by auto
    with same show ?thesis by (cases p) (auto simp: fun_eq_iff)
  qed
qed

lemma map_of_rename_entries:
  "map_of (rename_entries old new i es) = ((map_of es)(old := None))(new \<mapsto> i)"
proof -
  let ?rest = "filter (\<lambda>p. fst p \<noteq> old) es"
  show ?thesis
  proof (cases "new \<in> fst ` set ?rest")
    case True
    then have "map_of (rename_entries old new i es)
        = map_of (map (\<lambda>p. if fst p = new then (new, i) else p) ?rest)"
      by (simp add: rename_entries_def Let_def)
    also have "\<dots> = (map_of ?rest)(new \<mapsto> i)" by (rule map_of_replace [OF True])
    finally show ?thesis by (simp only: map_of_filter_fst)
  next
    case False
    then have n: "map_of ?rest new = None" by (simp add: map_of_eq_None_iff)
    from False have "map_of (rename_entries old new i es) = map_of (?rest @ [(new, i)])"
      by (simp add: rename_entries_def Let_def)
    also have "\<dots> = (map_of ?rest)(new \<mapsto> i)"
      using n by (auto simp: fun_eq_iff map_add_def split: option.splits)
    finally show ?thesis by (simp only: map_of_filter_fst)
  qed
qed

lemma update_nssdb_symlink_hoare:
  assumes ak: "a \<noteq> k"
  shows "hoare (\<lambda>w. (swap_state k fr c es a old J w \<and> next_ino w = k \<and> inodes w k = None)
                   \<and> new_dbdir_name w = nn)
     (update_nssdb_symlink c linkst)
     (\<lambda>_ w. faults_only w
            \<and> (\<exists>es'. dir_at c es' w \<and> map_of es' = (map_of es)(''alias'' \<mapsto> k))
            \<and> lnk_owned k (cstr nn) (st_uid linkst) (st_gid linkst) w
            \<and> journal w = J @ [Ev_symlinkat c ''alias.new'' (cstr nn), Ev_chown k,
                                Ev_renameat c ''alias.new'' ''alias'']
            \<and> (\<forall>i. i \<noteq> c \<and> i \<noteq> k \<longrightarrow> inodes w i = fr i))
     (\<lambda>e w. e \<in> stops \<and> swap_before fr c es a old J k ''alias.new'' (cstr nn) w)"
proof -
  let ?new = "cstr nn"
  let ?es1 = "es @ [(''alias.new'', k)]"
  let ?J1 = "J @ [Ev_symlinkat c ''alias.new'' ?new]"
  let ?J2 = "J @ [Ev_symlinkat c ''alias.new'' ?new, Ev_chown k]"
  let ?S1 = "\<lambda>w::world. map_of es ''alias.new'' = None
      \<and> swap_state k fr c ?es1 a old ?J1 w \<and> lnk_at k ?new w"
  let ?S2 = "\<lambda>w::world. map_of es ''alias.new'' = None
      \<and> swap_state k fr c ?es1 a old ?J2 w
      \<and> lnk_owned k ?new (st_uid linkst) (st_gid linkst) w"
  let ?E = "\<lambda>(e::err) w. e \<in> stops \<and> swap_before fr c es a old J k ''alias.new'' ?new w"
  let ?Q = "\<lambda>(_::unit) w. faults_only w
            \<and> (\<exists>es'. dir_at c es' w \<and> map_of es' = (map_of es)(''alias'' \<mapsto> k))
            \<and> lnk_owned k ?new (st_uid linkst) (st_gid linkst) w
            \<and> journal w = J @ [Ev_symlinkat c ''alias.new'' ?new, Ev_chown k,
                                Ev_renameat c ''alias.new'' ''alias'']
            \<and> (\<forall>i. i \<noteq> c \<and> i \<noteq> k \<longrightarrow> inodes w i = fr i)"
  have own: "hoare ?S1
      (or_fatal (fchown k (Some (st_uid linkst)) (Some (st_gid linkst)))
         ''Failed to set symbolic link ownership: alias.new'') (\<lambda>_. ?S2) ?E"
    unfolding fchown_def
  proof (rule hoare_call_fo)
    fix w assume p: "?S1 w"
    then show "faults_only w" by (simp add: swap_state_def)
    from p show "?S1 (w\<lparr>sched := tl (sched w)\<rparr>)" by (simp add: swap_state_def)
    from p show "?E (FATAL ''Failed to set symbolic link ownership: alias.new'') w"
      by (simp add: swap_before_def)
    from p obtain n where n: "inodes w k = Some n" "i_kind n = Lnk ?new"
      by (auto simp: lnk_at_def)
    from p obtain d where d: "inodes w c = Some d" "i_kind d = Dir ?es1"
      by (auto simp: swap_state_def dir_at_def)
    from n d have ck: "c \<noteq> k" by auto
    from p n d ck ak
    show "case with_inode k (\<lambda>n w.
            (Inr (), log_ev (Ev_chown k)
               (set_inode k
                  (n\<lparr>i_uid := (case Some (st_uid linkst) of None \<Rightarrow> i_uid n | Some x \<Rightarrow> x),
                     i_gid := (case Some (st_gid linkst) of None \<Rightarrow> i_gid n | Some x \<Rightarrow> x)\<rparr>)
                  w))) w of
            (Inl e, w2) \<Rightarrow> ?E (FATAL ''Failed to set symbolic link ownership: alias.new'') w2
          | (Inr x, w2) \<Rightarrow> ?S2 w2"
      by (auto simp: with_inode_def swap_state_def dir_at_def lnk_at_def lnk_owned_def
            set_inode_def log_ev_def faults_only_def)
  qed
  have cl: "hoare ?S2 (or_fatal (close k) ''Failed to close symbolic link: alias.new'')
      (\<lambda>_. ?S2) ?E"
    unfolding close_def
    by (rule hoare_call_fo) (simp_all add: swap_state_def swap_before_def)
  have rn: "hoare ?S2
      (or_fatal (renameat c ''alias.new'' ''alias'')
         ''Failed to rename symbolic link: alias.new to alias'') ?Q ?E"
    unfolding renameat_def
  proof (rule hoare_call_fo)
    fix w assume p: "?S2 w"
    then show "faults_only w" by (simp add: swap_state_def)
    from p show "?S2 (w\<lparr>sched := tl (sched w)\<rparr>)" by (simp add: swap_state_def)
    from p show "?E (FATAL ''Failed to rename symbolic link: alias.new to alias'') w"
      by (simp add: swap_before_def)
    from p obtain n where n: "inodes w k = Some n" "i_kind n = Lnk ?new"
      "i_uid n = st_uid linkst" "i_gid n = st_gid linkst"
      by (auto simp: lnk_owned_def)
    from p obtain d where d: "inodes w c = Some d" "i_kind d = Dir ?es1"
      by (auto simp: swap_state_def dir_at_def)
    from n d have ck: "c \<noteq> k" by auto
    from p have m: "map_of ?es1 ''alias.new'' = Some k" by (simp add: map_add_def)
    from p have "map_of (rename_entries ''alias.new'' ''alias'' k ?es1)
        = (map_of es)(''alias'' \<mapsto> k)"
      unfolding map_of_rename_entries
      by (auto simp: fun_eq_iff map_add_def split: option.splits)
    with p n d ck m
    show "case with_dir c (\<lambda>d es w.
             case map_of es ''alias.new'' of
               None \<Rightarrow> (Inl ENOENT, w)
             | Some i \<Rightarrow>
                 (Inr (), log_ev (Ev_renameat c ''alias.new'' ''alias'')
                    (set_inode c
                       (d\<lparr>i_kind := Dir (rename_entries ''alias.new'' ''alias'' i es),
                          i_mtim := now_ts w\<rparr>) w))) w of
            (Inl e, w2) \<Rightarrow> ?E (FATAL ''Failed to rename symbolic link: alias.new to alias'') w2
          | (Inr x, w2) \<Rightarrow> ?Q x w2"
      by (auto simp: with_dir_def with_inode_def swap_state_def dir_at_def lnk_owned_def
            set_inode_def log_ev_def faults_only_def)
  qed
  have rest: "hoare (\<lambda>w. fd = k \<and> ?S1 w)
     (pseq (or_fatal (fchown fd (Some (st_uid linkst)) (Some (st_gid linkst)))
             ''Failed to set symbolic link ownership: alias.new'')
    (pseq (or_fatal (close fd) ''Failed to close symbolic link: alias.new'')
          (or_fatal (renameat c ''alias.new'' ''alias'')
             ''Failed to rename symbolic link: alias.new to alias''))) ?Q ?E" for fd
  proof (rule hoare_assume)
    assume fk: "fd = k"
    show "hoare ?S1
     (pseq (or_fatal (fchown fd (Some (st_uid linkst)) (Some (st_gid linkst)))
             ''Failed to set symbolic link ownership: alias.new'')
    (pseq (or_fatal (close fd) ''Failed to close symbolic link: alias.new'')
          (or_fatal (renameat c ''alias.new'' ''alias'')
             ''Failed to rename symbolic link: alias.new to alias''))) ?Q ?E"
      unfolding fk by (rule hoare_pseq [OF own hoare_pseq [OF cl rn]])
  qed
  have body: "hoare (\<lambda>w. swap_state k fr c es a old J w \<and> next_ino w = k \<and> inodes w k = None)
     (pbind (create_symlink c nn ''alias.new'' [] ''alias.new'') (\<lambda>fd.
      pseq (or_fatal (fchown fd (Some (st_uid linkst)) (Some (st_gid linkst)))
             ''Failed to set symbolic link ownership: alias.new'')
     (pseq (or_fatal (close fd) ''Failed to close symbolic link: alias.new'')
          (or_fatal (renameat c ''alias.new'' ''alias'')
             ''Failed to rename symbolic link: alias.new to alias'')))) ?Q ?E"
    by (rule hoare_pbind [OF create_symlink_faults_only [OF ak] rest])
  show ?thesis
    unfolding update_nssdb_symlink_def
    by (rule hoareI, insert body)
       (auto simp: hoare_def pbind_def get_new_dbdir_name_def split: prod.splits sum.splits)
qed

lemma alias_swap_faults_only:
  assumes "update_nssdb_symlink c linkst w = (r, w')"
    and "faults_only w"
    and "dir_at c es w" and "map_of es ''alias'' = Some a" and "lnk_at a old w"
    and "inodes w (next_ino w) = None"
  shows "case r of
           Inl e \<Rightarrow>
             e \<in> stops \<and> alias_target c w' = Some old
             \<and> journal w' \<in>
                 {journal w,
                  journal w @ [Ev_symlinkat c ''alias.new'' (cstr (new_dbdir_name w))],
                  journal w @ [Ev_symlinkat c ''alias.new'' (cstr (new_dbdir_name w)),
                               Ev_chown (next_ino w)]}
             \<and> (\<forall>i. i \<noteq> c \<and> i \<noteq> next_ino w \<longrightarrow> inodes w' i = inodes w i)
         | Inr _ \<Rightarrow>
             alias_target c w' = Some (cstr (new_dbdir_name w))
             \<and> lnk_owned (next_ino w) (cstr (new_dbdir_name w))
                 (st_uid linkst) (st_gid linkst) w'
             \<and> (\<exists>es'. dir_at c es' w'
                   \<and> map_of es' = (map_of es)(''alias'' \<mapsto> next_ino w))
             \<and> journal w' = journal w @
                 [Ev_symlinkat c ''alias.new'' (cstr (new_dbdir_name w)),
                  Ev_chown (next_ino w), Ev_renameat c ''alias.new'' ''alias'']
             \<and> (\<forall>i. i \<noteq> c \<and> i \<noteq> next_ino w \<longrightarrow> inodes w' i = inodes w i)"
proof -
  let ?k = "next_ino w"
  let ?new = "cstr (new_dbdir_name w)"
  from assms(5,6) have ak: "a \<noteq> ?k" by (auto simp: lnk_at_def)
  have pre: "(swap_state ?k (inodes w) c es a old (journal w) w \<and> next_ino w = ?k
                \<and> inodes w ?k = None)
      \<and> new_dbdir_name w = new_dbdir_name w"
    using assms(2,3,5,6) by (simp add: swap_state_def)
  note h = update_nssdb_symlink_hoare
    [OF ak, of "inodes w" c es old "journal w" "new_dbdir_name w" linkst]
  show ?thesis
  proof (cases r)
    case (Inl e)
    from hoareD_Inl [OF h pre assms(1) [unfolded Inl]]
    have e: "e \<in> stops"
      and b: "swap_before (inodes w) c es a old (journal w) ?k ''alias.new'' ?new w'"
      by simp_all
    have m: "map_of (es @ [(''alias.new'', ?k)]) ''alias'' = Some a"
      using assms(4) by (simp add: map_add_def)
    from b have "alias_target c w' = Some old"
      unfolding swap_before_def swap_state_def
      using alias_target_old [OF _ assms(4)] alias_target_old [OF _ m] by blast
    moreover from b have "journal w' \<in>
                 {journal w,
                  journal w @ [Ev_symlinkat c ''alias.new'' ?new],
                  journal w @ [Ev_symlinkat c ''alias.new'' ?new, Ev_chown ?k]}"
      unfolding swap_before_def swap_state_def by auto
    moreover from b have "\<forall>i. i \<noteq> c \<and> i \<noteq> ?k \<longrightarrow> inodes w' i = inodes w i"
      unfolding swap_before_def swap_state_def by auto
    ultimately show ?thesis using e Inl by simp
  next
    case (Inr u)
    from hoareD_Inr [OF h pre assms(1) [unfolded Inr]]
    obtain es' where d: "dir_at c es' w'" "map_of es' = (map_of es)(''alias'' \<mapsto> ?k)"
      and o: "lnk_owned ?k ?new (st_uid linkst) (st_gid linkst) w'"
      and j: "journal w' = journal w @
                 [Ev_symlinkat c ''alias.new'' ?new,
                  Ev_chown ?k, Ev_renameat c ''alias.new'' ''alias'']"
      and f: "\<forall>i. i \<noteq> c \<and> i \<noteq> ?k \<longrightarrow> inodes w' i = inodes w i"
      by blast
    from o have l: "lnk_at ?k ?new w'" by (auto simp: lnk_owned_def lnk_at_def)
    from d(2) have "map_of es' ''alias'' = Some ?k" by simp
    from alias_target_old [OF d(1) this l] d o j f Inr show ?thesis by auto
  qed
qed

subsection \<open>The swap while other processes write\<close>

text \<open>
  A call in general: \<open>P\<close> before it, \<open>P'\<close> once the other processes have taken their
  turn, and the result of the call itself from there.
\<close>

lemma hoare_call:
  assumes st: "\<And>w. P w \<Longrightarrow> P' (snd (env_step w))"
    and fl: "\<And>w. P' w \<Longrightarrow> E (FATAL msg) w"
    and rn: "\<And>w. P' w \<Longrightarrow>
               (case op w of (Inl e, w2) \<Rightarrow> E (FATAL msg) w2 | (Inr x, w2) \<Rightarrow> Q x w2)"
  shows "hoare P (or_fatal (syscall op) msg) Q E"
proof (rule hoare_or_fatal, rule hoare_syscall)
  fix w assume p: "P w"
  note p' = st [OF p]
  from fl [OF p'] rn [OF p']
  show "case fst (env_step w) of
          None \<Rightarrow> (case op (snd (env_step w)) of
                     (r, w2) \<Rightarrow> (case r of Inl e \<Rightarrow> E (FATAL msg) w2 | Inr x \<Rightarrow> Q x w2))
        | Some e \<Rightarrow> (case Inl e of Inl e \<Rightarrow> E (FATAL msg) (snd (env_step w))
                     | Inr x \<Rightarrow> Q x (snd (env_step w)))"
    by (simp split: option.splits prod.splits sum.splits)
qed

text \<open>\<open>quiet_from k w\<close>: from the call after the next \<open>k\<close> on, no other process writes.\<close>

definition quiet_from :: "nat \<Rightarrow> world \<Rightarrow> bool" where
  "quiet_from k w = (\<forall>s \<in> set (drop k (sched w)). env_writes s = [])"

lemma quiet_from_0: "quiet_from 0 w = faults_only w"
  by (simp add: quiet_from_def faults_only_def)

lemma quiet_from_env_step: "quiet_from (Suc k) w \<Longrightarrow> quiet_from k (snd (env_step w))"
  by (simp add: quiet_from_def drop_Suc)

lemma quiet_from_sched: "sched w' = sched w \<Longrightarrow> quiet_from k w' = quiet_from k w"
  by (simp add: quiet_from_def)

text \<open>
  \<open>bound c name fd w\<close>: no other process writes any more, and \<open>name\<close> is bound to
  \<open>fd\<close> in the directory \<open>c\<close>.
\<close>

definition bound :: "ino \<Rightarrow> string \<Rightarrow> ino \<Rightarrow> world \<Rightarrow> bool" where
  "bound c name fd w = (faults_only w \<and> (\<exists>es. dir_at c es w \<and> map_of es name = Some fd))"

lemma bound_env_step: "bound c name fd w \<Longrightarrow> bound c name fd (snd (env_step w))"
  by (simp add: bound_def env_step_faults_only)

lemma create_symlink_published:
  "hoare (quiet_from 2)
     (create_symlink c target name dbdir_name path)
     (\<lambda>fd w. bound c name fd w \<and> lnk_at fd (cstr target) w)
     (\<lambda>e w. e \<in> stops)"
proof -
  let ?new = "cstr target"
  let ?E = "\<lambda>(e::err) (w::world). e \<in> stops"
  let ?B = "\<lambda>fd w. bound c name fd w"
  let ?Q = "\<lambda>fd w. bound c name fd w \<and> lnk_at fd ?new w"
  have s1: "hoare (quiet_from 2)
      (or_fatal (symlinkat ?new c name) ''Failed to create symbolic link'')
      (\<lambda>_. quiet_from 1) ?E"
    unfolding symlinkat_def
  proof (rule hoare_call [where P' = "quiet_from 1"])
    fix w :: world
    show "quiet_from 2 w \<Longrightarrow> quiet_from 1 (snd (env_step w))"
      using quiet_from_env_step [of 1 w] by (simp add: numeral_2_eq_2)
    show "quiet_from 1 w \<Longrightarrow> ?E (FATAL ''Failed to create symbolic link'') w" by simp
    assume q: "quiet_from 1 w"
    have "\<And>d es. quiet_from 1 (log_ev (Ev_symlinkat c name ?new)
               (add_entry c d es name
                  ((fresh_inode (Lnk ?new) 0x1FF w)\<lparr>i_perm := 0x1FF\<rparr>) w))"
      using q by (simp add: quiet_from_def log_ev_def add_entry_def)
    then show "case with_dir c (\<lambda>d es w.
             case map_of es name of
               Some i \<Rightarrow> (Inl EEXIST, w)
             | None \<Rightarrow>
                 if ?new = [] then (Inl ENOENT, w)
                 else (Inr (), log_ev (Ev_symlinkat c name ?new)
                         (add_entry c d es name
                            ((fresh_inode (Lnk ?new) 0x1FF w)\<lparr>i_perm := 0x1FF\<rparr>) w))) w of
            (Inl e, w2) \<Rightarrow> ?E (FATAL ''Failed to create symbolic link'') w2
          | (Inr x, w2) \<Rightarrow> quiet_from 1 w2"
      by (auto simp: with_dir_def with_inode_def split: option.splits kind.splits)
  qed
  have s2: "hoare (quiet_from 1)
      (or_fatal (openat c name [O_RDONLY, O_NOFOLLOW, O_PATH] 0)
         ''Failed to open symbolic link'') ?B ?E"
    unfolding openat_def
  proof (rule hoare_call [where P' = faults_only])
    fix w :: world
    show "quiet_from 1 w \<Longrightarrow> faults_only (snd (env_step w))"
      using quiet_from_env_step [of 0 w] by (simp add: quiet_from_0)
    show "faults_only w \<Longrightarrow> ?E (FATAL ''Failed to open symbolic link'') w" by simp
    assume f: "faults_only w"
    then show "case with_dir c (\<lambda>d es w.
             case map_of es name of
               None \<Rightarrow>
                 if O_CREAT \<in> set [O_RDONLY, O_NOFOLLOW, O_PATH]
                 then (Inr (next_ino w),
                       log_ev (Ev_creat c name)
                         (add_entry c d es name (fresh_inode (Reg []) 0 w) w))
                 else (Inl ENOENT, w)
             | Some i \<Rightarrow>
                 if O_CREAT \<in> set [O_RDONLY, O_NOFOLLOW, O_PATH]
                    \<and> O_EXCL \<in> set [O_RDONLY, O_NOFOLLOW, O_PATH] then (Inl EEXIST, w)
                 else open_inode i [O_RDONLY, O_NOFOLLOW, O_PATH] w) w of
            (Inl e, w2) \<Rightarrow> ?E (FATAL ''Failed to open symbolic link'') w2
          | (Inr x, w2) \<Rightarrow> ?B x w2"
      by (auto simp: with_dir_def with_inode_def open_inode_def bound_def dir_at_def
            split: option.splits kind.splits if_splits)
  qed
  have s3: "hoare (?B fd)
      (or_fatal (fstat fd) ''Failed to read symbolic link info'')
      (\<lambda>st w. \<exists>n. (inodes w fd = Some n \<and> st = stat_of n) \<and> ?B fd w) ?E" for fd
    unfolding fstat_def
    by (rule hoare_call [where P' = "?B fd"])
       (auto simp: bound_env_step with_inode_def split: option.splits)
  have s4: "hoare (\<lambda>w::world. ?B fd w \<and> lnk_at fd t w)
      (or_fatal alloc ''Memory allocation failed'')
      (\<lambda>_ w. ?B fd w \<and> lnk_at fd t w) ?E" for fd t
    unfolding alloc_def
    by (rule hoare_call [where P' = "\<lambda>w. ?B fd w \<and> lnk_at fd t w"])
       (auto simp: bound_env_step lnk_at_env_step)
  have s5: "hoare (\<lambda>w::world. ?B fd w \<and> lnk_at fd t w)
      (or_fatal (readlinkat fd z) ''Failed to read symbolic link target'')
      (\<lambda>got w. got = take z t \<and> ?B fd w \<and> lnk_at fd t w) ?E" for fd t z
    unfolding readlinkat_def
  proof (rule hoare_call [where P' = "\<lambda>w. ?B fd w \<and> lnk_at fd t w"])
    fix w :: world
    show "?B fd w \<and> lnk_at fd t w \<Longrightarrow>
            ?B fd (snd (env_step w)) \<and> lnk_at fd t (snd (env_step w))"
      by (simp add: bound_env_step lnk_at_env_step)
    show "?B fd w \<and> lnk_at fd t w \<Longrightarrow> ?E (FATAL ''Failed to read symbolic link target'') w"
      by simp
    assume p: "?B fd w \<and> lnk_at fd t w"
    then obtain n where n: "inodes w fd = Some n" "i_kind n = Lnk t"
      by (auto simp: lnk_at_def)
    with p show "case with_inode fd (\<lambda>n w.
             case i_kind n of Lnk t \<Rightarrow> (Inr (take z t), w) | _ \<Rightarrow> (Inl EINVAL, w)) w of
            (Inl e, w2) \<Rightarrow> ?E (FATAL ''Failed to read symbolic link target'') w2
          | (Inr got, w2) \<Rightarrow> got = take z t \<and> ?B fd w2 \<and> lnk_at fd t w2"
      by (simp add: with_inode_def)
  qed
  have s6: "hoare (\<lambda>w::world. ?B fd w \<and> lnk_at fd t w)
      (pseq (or_fatal alloc ''Memory allocation failed'')
      (pbind (or_fatal (readlinkat fd (nat (st_size st)))
                ''Failed to read symbolic link target'') (\<lambda>got.
       let new_target = got @ zeros (nat (st_size st) + 1 - length got) in
       if memcmp_ne (target @ [CHR 0x00]) new_target (nat (st_size st))
         then pfail (FATAL ''Symbolic link target changed'')
       else preturn fd))) ?Q ?E"
    if len: "st_size st = int (length t)" and eq: "nat (st_size st) = strlen target"
    for fd t st
  proof (rule hoare_pseq [OF s4], rule hoare_pbind [OF s5])
    fix got
    show "hoare (\<lambda>w. got = take (nat (st_size st)) t \<and> ?B fd w \<and> lnk_at fd t w)
       (let new_target = got @ zeros (nat (st_size st) + 1 - length got) in
        if memcmp_ne (target @ [CHR 0x00]) new_target (nat (st_size st))
          then pfail (FATAL ''Symbolic link target changed'')
        else preturn fd) ?Q ?E"
    proof (rule hoare_assume)
      assume g: "got = take (nat (st_size st)) t"
      with len have gt: "got = t" by simp
      have a: "take (nat (st_size st)) (target @ [CHR 0x00]) = cstr target"
        unfolding eq by (rule take_strlen)
      have b: "take (nat (st_size st)) (got @ zeros (nat (st_size st) + 1 - length got)) = t"
        using gt len by simp
      show "hoare (\<lambda>w. ?B fd w \<and> lnk_at fd t w)
       (let new_target = got @ zeros (nat (st_size st) + 1 - length got) in
        if memcmp_ne (target @ [CHR 0x00]) new_target (nat (st_size st))
          then pfail (FATAL ''Symbolic link target changed'')
        else preturn fd) ?Q ?E"
        unfolding Let_def memcmp_ne_def a b
        by (rule hoare_if, rule hoare_pfail, simp, rule hoare_preturn, simp)
    qed
  qed
  have s7: "hoare (\<lambda>w. \<exists>n. (inodes w fd = Some n \<and> st = stat_of n) \<and> ?B fd w)
     (if \<not> S_ISLNK (st_mode st) then pfail (FATAL ''Not a symbolic link'')
      else if st_size st \<le> 0 \<or> st_size st > SSIZE_MAX - 1
        then pfail (FATAL ''Symbolic link target size invalid'')
      else if nat (st_size st) \<noteq> strlen target
        then pfail (FATAL ''Symbolic link target changed'')
      else
      pseq (or_fatal alloc ''Memory allocation failed'')
      (pbind (or_fatal (readlinkat fd (nat (st_size st)))
                ''Failed to read symbolic link target'') (\<lambda>got.
       let new_target = got @ zeros (nat (st_size st) + 1 - length got) in
       if memcmp_ne (target @ [CHR 0x00]) new_target (nat (st_size st))
         then pfail (FATAL ''Symbolic link target changed'')
       else preturn fd))) ?Q ?E" for fd st
  proof (rule hoare_if, rule hoare_pfail, simp, rule hoare_if, rule hoare_pfail, simp,
         rule hoare_if, rule hoare_pfail, simp)
    assume l: "\<not> \<not> S_ISLNK (st_mode st)" and eq: "\<not> nat (st_size st) \<noteq> strlen target"
    show "hoare (\<lambda>w. \<exists>n. (inodes w fd = Some n \<and> st = stat_of n) \<and> ?B fd w)
      (pseq (or_fatal alloc ''Memory allocation failed'')
      (pbind (or_fatal (readlinkat fd (nat (st_size st)))
                ''Failed to read symbolic link target'') (\<lambda>got.
       let new_target = got @ zeros (nat (st_size st) + 1 - length got) in
       if memcmp_ne (target @ [CHR 0x00]) new_target (nat (st_size st))
         then pfail (FATAL ''Symbolic link target changed'')
       else preturn fd))) ?Q ?E"
    proof (rule hoareI)
      fix w :: world
      assume "\<exists>n. (inodes w fd = Some n \<and> st = stat_of n) \<and> ?B fd w"
      then obtain n where n: "inodes w fd = Some n" "st = stat_of n" "?B fd w"
        by blast
      from l n(2) stat_of_lnk [of n] obtain t
        where t: "i_kind n = Lnk t" "st_size st = int (length t)" by auto
      from n t have p: "?B fd w \<and> lnk_at fd t w" by (auto simp: lnk_at_def)
      from eq have "nat (st_size st) = strlen target" by simp
      from s6 [OF t(2) this] p
      show "case (pseq (or_fatal alloc ''Memory allocation failed'')
      (pbind (or_fatal (readlinkat fd (nat (st_size st)))
                ''Failed to read symbolic link target'') (\<lambda>got.
       let new_target = got @ zeros (nat (st_size st) + 1 - length got) in
       if memcmp_ne (target @ [CHR 0x00]) new_target (nat (st_size st))
         then pfail (FATAL ''Symbolic link target changed'')
       else preturn fd))) w of (Inl e, w') \<Rightarrow> e \<in> stops | (Inr x, w') \<Rightarrow> ?Q x w'"
        by (simp add: hoare_def)
    qed
  qed
  show ?thesis
    unfolding create_symlink_def
    by (rule hoare_pseq [OF _ hoare_pseq [OF s1 hoare_pbind [OF s2 hoare_pbind [OF s3 s7]]]],
        rule hoare_passert) simp_all
qed

lemma update_nssdb_symlink_published:
  "hoare (\<lambda>w. quiet_from 2 w \<and> new_dbdir_name w = nn)
     (update_nssdb_symlink c linkst)
     (\<lambda>_ w. alias_target c w = Some (cstr nn))
     (\<lambda>e w. e \<in> stops)"
proof -
  let ?new = "cstr nn"
  let ?E = "\<lambda>(e::err) (w::world). e \<in> stops"
  let ?V = "\<lambda>fd (w::world). bound c ''alias.new'' fd w \<and> lnk_at fd ?new w"
  have own: "hoare (?V fd)
      (or_fatal (fchown fd (Some (st_uid linkst)) (Some (st_gid linkst)))
         ''Failed to set symbolic link ownership: alias.new'') (\<lambda>_. ?V fd) ?E" for fd
    unfolding fchown_def
  proof (rule hoare_call [where P' = "?V fd"])
    fix w :: world
    show "?V fd w \<Longrightarrow> ?V fd (snd (env_step w))"
      by (simp add: bound_env_step lnk_at_env_step)
    show "?V fd w \<Longrightarrow> ?E (FATAL ''Failed to set symbolic link ownership: alias.new'') w"
      by simp
    assume v: "?V fd w"
    then obtain n where n: "inodes w fd = Some n" "i_kind n = Lnk ?new"
      by (auto simp: lnk_at_def)
    from v obtain d es where d: "inodes w c = Some d" "i_kind d = Dir es"
      "map_of es ''alias.new'' = Some fd"
      by (auto simp: bound_def dir_at_def)
    from n d have ck: "c \<noteq> fd" by auto
    from v n d ck
    show "case with_inode fd (\<lambda>n w.
            (Inr (), log_ev (Ev_chown fd)
               (set_inode fd
                  (n\<lparr>i_uid := (case Some (st_uid linkst) of None \<Rightarrow> i_uid n | Some x \<Rightarrow> x),
                     i_gid := (case Some (st_gid linkst) of None \<Rightarrow> i_gid n | Some x \<Rightarrow> x)\<rparr>)
                  w))) w of
            (Inl e, w2) \<Rightarrow> ?E (FATAL ''Failed to set symbolic link ownership: alias.new'') w2
          | (Inr x, w2) \<Rightarrow> ?V fd w2"
      by (auto simp: with_inode_def bound_def dir_at_def lnk_at_def set_inode_def log_ev_def
            faults_only_def)
  qed
  have cl: "hoare (?V fd) (or_fatal (close fd) ''Failed to close symbolic link: alias.new'')
      (\<lambda>_. ?V fd) ?E" for fd
    unfolding close_def
    by (rule hoare_call [where P' = "?V fd"]) (simp_all add: bound_env_step lnk_at_env_step)
  have rn: "hoare (?V fd)
      (or_fatal (renameat c ''alias.new'' ''alias'')
         ''Failed to rename symbolic link: alias.new to alias'')
      (\<lambda>_ w. alias_target c w = Some ?new) ?E" for fd
    unfolding renameat_def
  proof (rule hoare_call [where P' = "?V fd"])
    fix w :: world
    show "?V fd w \<Longrightarrow> ?V fd (snd (env_step w))"
      by (simp add: bound_env_step lnk_at_env_step)
    show "?V fd w \<Longrightarrow> ?E (FATAL ''Failed to rename symbolic link: alias.new to alias'') w"
      by simp
    assume v: "?V fd w"
    then obtain n where n: "inodes w fd = Some n" "i_kind n = Lnk ?new"
      by (auto simp: lnk_at_def)
    from v obtain d es where d: "inodes w c = Some d" "i_kind d = Dir es"
      "map_of es ''alias.new'' = Some fd"
      by (auto simp: bound_def dir_at_def)
    from n d have ck: "c \<noteq> fd" by auto
    have m: "map_of (rename_entries ''alias.new'' ''alias'' fd es) ''alias'' = Some fd"
      unfolding map_of_rename_entries by simp
    from n d ck m
    show "case with_dir c (\<lambda>d es w.
             case map_of es ''alias.new'' of
               None \<Rightarrow> (Inl ENOENT, w)
             | Some i \<Rightarrow>
                 (Inr (), log_ev (Ev_renameat c ''alias.new'' ''alias'')
                    (set_inode c
                       (d\<lparr>i_kind := Dir (rename_entries ''alias.new'' ''alias'' i es),
                          i_mtim := now_ts w\<rparr>) w))) w of
            (Inl e, w2) \<Rightarrow> ?E (FATAL ''Failed to rename symbolic link: alias.new to alias'') w2
          | (Inr x, w2) \<Rightarrow> alias_target c w2 = Some ?new"
      by (simp add: with_dir_def with_inode_def alias_target_def set_inode_def log_ev_def)
  qed
  have body: "hoare (quiet_from 2)
     (pbind (create_symlink c nn ''alias.new'' [] ''alias.new'') (\<lambda>fd.
      pseq (or_fatal (fchown fd (Some (st_uid linkst)) (Some (st_gid linkst)))
             ''Failed to set symbolic link ownership: alias.new'')
     (pseq (or_fatal (close fd) ''Failed to close symbolic link: alias.new'')
          (or_fatal (renameat c ''alias.new'' ''alias'')
             ''Failed to rename symbolic link: alias.new to alias''))))
     (\<lambda>_ w. alias_target c w = Some ?new) ?E"
    by (rule hoare_pbind [OF create_symlink_published hoare_pseq [OF own hoare_pseq [OF cl rn]]])
  show ?thesis
    unfolding update_nssdb_symlink_def
    by (rule hoareI, insert body)
       (auto simp: hoare_def pbind_def get_new_dbdir_name_def split: prod.splits sum.splits)
qed

text \<open>Whatever the other processes do and whenever they do it.\<close>

lemma hoare_renameat_lnk:
  "hoare (\<lambda>w. lnk_at i t w \<and> journal w = J) (or_fatal (renameat c a b) msg)
     (\<lambda>_ w. lnk_at i t w \<and> journal w = J @ [Ev_renameat c a b]) (\<lambda>e _. e \<in> stops)"
  unfolding renameat_def
proof (rule hoare_call [where P' = "\<lambda>w. lnk_at i t w \<and> journal w = J"])
  fix w :: world
  show "lnk_at i t w \<and> journal w = J \<Longrightarrow> lnk_at i t (snd (env_step w))
          \<and> journal (snd (env_step w)) = J"
    by (simp add: lnk_at_env_step)
  show "lnk_at i t w \<and> journal w = J \<Longrightarrow> FATAL msg \<in> stops" by simp
  assume p: "lnk_at i t w \<and> journal w = J"
  then show "case with_dir c (\<lambda>d es w.
             case map_of es a of
               None \<Rightarrow> (Inl ENOENT, w)
             | Some j \<Rightarrow>
                 (Inr (), log_ev (Ev_renameat c a b)
                    (set_inode c
                       (d\<lparr>i_kind := Dir (rename_entries a b j es),
                          i_mtim := now_ts w\<rparr>) w))) w of
            (Inl e, w2) \<Rightarrow> FATAL msg \<in> stops
          | (Inr x, w2) \<Rightarrow> lnk_at i t w2 \<and> journal w2 = J @ [Ev_renameat c a b]"
    by (auto simp: with_dir_def with_inode_def lnk_at_def set_inode_def log_ev_def
          split: option.splits kind.splits)
qed

lemma update_nssdb_symlink_read_back:
  "hoare (\<lambda>w. journal w = J \<and> new_dbdir_name w = nn)
     (update_nssdb_symlink c linkst)
     (\<lambda>_ w. \<exists>fd. lnk_at fd (cstr nn) w
               \<and> journal w = J @ [Ev_symlinkat c ''alias.new'' (cstr nn), Ev_chown fd,
                                   Ev_renameat c ''alias.new'' ''alias''])
     (\<lambda>e w. e \<in> stops)"
proof -
  let ?new = "cstr nn"
  let ?J1 = "J @ [Ev_symlinkat c ''alias.new'' ?new]"
  let ?E = "\<lambda>(e::err) (w::world). e \<in> stops"
  let ?Q = "\<lambda>(_::unit) w. \<exists>fd. lnk_at fd ?new w
               \<and> journal w = J @ [Ev_symlinkat c ''alias.new'' ?new, Ev_chown fd,
                                   Ev_renameat c ''alias.new'' ''alias'']"
  have rest: "hoare (\<lambda>w. lnk_at fd ?new w \<and> journal w = ?J1)
     (pseq (or_fatal (fchown fd (Some (st_uid linkst)) (Some (st_gid linkst)))
             ''Failed to set symbolic link ownership: alias.new'')
    (pseq (or_fatal (close fd) ''Failed to close symbolic link: alias.new'')
          (or_fatal (renameat c ''alias.new'' ''alias'')
             ''Failed to rename symbolic link: alias.new to alias''))) ?Q ?E" for fd
    by (rule hoare_pseq [OF hoare_fchown_lnk], rule hoare_pseq [OF hoare_close],
        rule hoare_weaken [OF hoare_renameat_lnk]) auto
  have body: "hoare (\<lambda>w. journal w = J)
     (pbind (create_symlink c nn ''alias.new'' [] ''alias.new'') (\<lambda>fd.
      pseq (or_fatal (fchown fd (Some (st_uid linkst)) (Some (st_gid linkst)))
             ''Failed to set symbolic link ownership: alias.new'')
     (pseq (or_fatal (close fd) ''Failed to close symbolic link: alias.new'')
          (or_fatal (renameat c ''alias.new'' ''alias'')
             ''Failed to rename symbolic link: alias.new to alias'')))) ?Q ?E"
    by (rule hoare_pbind [OF create_symlink_read_back rest])
  show ?thesis
    unfolding update_nssdb_symlink_def
    by (rule hoareI, insert body)
       (auto simp: hoare_def pbind_def get_new_dbdir_name_def split: prod.splits sum.splits)
qed

text \<open>
  C2. \<^verbatim>\<open>update_nssdb_symlink\<close> in three settings. \<open>c\<close> is the configuration
  directory.

  Whatever other processes do and whenever they do it, the function returns normally
  only if the link it opened under \<^verbatim>\<open>alias.new\<close> after creating it has the new
  generation's name as its target (read back and compared, length first); it is this
  link whose owner is set, and the calls that change anything are \<^verbatim>\<open>symlinkat\<close> of
  \<^verbatim>\<open>alias.new\<close>, \<^verbatim>\<open>fchown\<close> of that link and one \<^verbatim>\<open>renameat\<close> of \<^verbatim>\<open>alias.new\<close>
  to \<^verbatim>\<open>alias\<close>, in this order. Every other end is a fatal termination.

  When other processes write up to the moment the new link is opened (they may have
  replaced it by then) and not after, a normal return has published the new
  generation's name under \<^verbatim>\<open>alias\<close>: a link with another target is never published,
  the read-back stops the run.

  When calls may fail at any point but no other process writes, and \<^verbatim>\<open>alias\<close> is
  bound to a symbolic link with target \<open>old\<close>: a run can be stopped after any call by
  making the next one fail, so the worlds in which the function can stop are the
  states a reader can see between its calls. In every one of them that is not the
  normal return the reader finds the old target under \<^verbatim>\<open>alias\<close>, and the rename has
  not happened; after the normal return the reader finds the new generation's name,
  on a link that has the owner and group passed in \<open>linkst\<close>, the directory's other
  names are as before, and \<^verbatim>\<open>alias.new\<close> is gone. Nothing but the directory and the
  new link has changed. The alias is never unbound and never has a third value.
\<close>

theorem alias_swap_atomic:
  assumes "update_nssdb_symlink c linkst w = (r, w')"
  shows "(case r of
            Inl e \<Rightarrow> e \<in> stops
          | Inr _ \<Rightarrow>
              (\<exists>fd. lnk_at fd (cstr (new_dbdir_name w)) w'
                 \<and> journal w' = journal w @
                     [Ev_symlinkat c ''alias.new'' (cstr (new_dbdir_name w)), Ev_chown fd,
                      Ev_renameat c ''alias.new'' ''alias'']))
       \<and> (quiet_from 2 w \<longrightarrow>
            (case r of
               Inl e \<Rightarrow> e \<in> stops
             | Inr _ \<Rightarrow> alias_target c w' = Some (cstr (new_dbdir_name w))))
       \<and> (faults_only w \<and> dir_at c es w \<and> map_of es ''alias'' = Some a \<and> lnk_at a old w
            \<and> inodes w (next_ino w) = None \<longrightarrow>
            (case r of
               Inl e \<Rightarrow>
                 e \<in> stops \<and> alias_target c w' = Some old
                 \<and> journal w' \<in>
                     {journal w,
                      journal w @ [Ev_symlinkat c ''alias.new'' (cstr (new_dbdir_name w))],
                      journal w @ [Ev_symlinkat c ''alias.new'' (cstr (new_dbdir_name w)),
                                   Ev_chown (next_ino w)]}
                 \<and> (\<forall>i. i \<noteq> c \<and> i \<noteq> next_ino w \<longrightarrow> inodes w' i = inodes w i)
             | Inr _ \<Rightarrow>
                 alias_target c w' = Some (cstr (new_dbdir_name w))
                 \<and> lnk_owned (next_ino w) (cstr (new_dbdir_name w))
                     (st_uid linkst) (st_gid linkst) w'
                 \<and> (\<exists>es'. dir_at c es' w'
                       \<and> map_of es' = (map_of es)(''alias'' \<mapsto> next_ino w))
                 \<and> journal w' = journal w @
                     [Ev_symlinkat c ''alias.new'' (cstr (new_dbdir_name w)),
                      Ev_chown (next_ino w), Ev_renameat c ''alias.new'' ''alias'']
                 \<and> (\<forall>i. i \<noteq> c \<and> i \<noteq> next_ino w \<longrightarrow> inodes w' i = inodes w i)))"
proof (intro conjI impI)
  note h = update_nssdb_symlink_read_back [of "journal w" "new_dbdir_name w" c linkst]
  show "case r of
            Inl e \<Rightarrow> e \<in> stops
          | Inr _ \<Rightarrow>
              (\<exists>fd. lnk_at fd (cstr (new_dbdir_name w)) w'
                 \<and> journal w' = journal w @
                     [Ev_symlinkat c ''alias.new'' (cstr (new_dbdir_name w)), Ev_chown fd,
                      Ev_renameat c ''alias.new'' ''alias''])"
  proof (cases r)
    case (Inl e)
    with hoareD_Inl [OF h _ assms [unfolded Inl]] show ?thesis by simp
  next
    case (Inr u)
    with hoareD_Inr [OF h _ assms [unfolded Inr]] show ?thesis by simp
  qed
next
  assume q: "quiet_from 2 w"
  note h = update_nssdb_symlink_published [of "new_dbdir_name w" c linkst]
  show "case r of
               Inl e \<Rightarrow> e \<in> stops
             | Inr _ \<Rightarrow> alias_target c w' = Some (cstr (new_dbdir_name w))"
  proof (cases r)
    case (Inl e)
    with hoareD_Inl [OF h _ assms [unfolded Inl]] q show ?thesis by simp
  next
    case (Inr u)
    with hoareD_Inr [OF h _ assms [unfolded Inr]] q show ?thesis by simp
  qed
next
  assume "faults_only w \<and> dir_at c es w \<and> map_of es ''alias'' = Some a \<and> lnk_at a old w
            \<and> inodes w (next_ino w) = None"
  then have a: "faults_only w" "dir_at c es w" "map_of es ''alias'' = Some a"
    "lnk_at a old w" "inodes w (next_ino w) = None" by simp_all
  from alias_swap_faults_only [OF assms a]
  show "case r of
               Inl e \<Rightarrow>
                 e \<in> stops \<and> alias_target c w' = Some old
                 \<and> journal w' \<in>
                     {journal w,
                      journal w @ [Ev_symlinkat c ''alias.new'' (cstr (new_dbdir_name w))],
                      journal w @ [Ev_symlinkat c ''alias.new'' (cstr (new_dbdir_name w)),
                                   Ev_chown (next_ino w)]}
                 \<and> (\<forall>i. i \<noteq> c \<and> i \<noteq> next_ino w \<longrightarrow> inodes w' i = inodes w i)
             | Inr _ \<Rightarrow>
                 alias_target c w' = Some (cstr (new_dbdir_name w))
                 \<and> lnk_owned (next_ino w) (cstr (new_dbdir_name w))
                     (st_uid linkst) (st_gid linkst) w'
                 \<and> (\<exists>es'. dir_at c es' w'
                       \<and> map_of es' = (map_of es)(''alias'' \<mapsto> next_ino w))
                 \<and> journal w' = journal w @
                     [Ev_symlinkat c ''alias.new'' (cstr (new_dbdir_name w)),
                      Ev_chown (next_ino w), Ev_renameat c ''alias.new'' ''alias'']
                 \<and> (\<forall>i. i \<noteq> c \<and> i \<noteq> next_ino w \<longrightarrow> inodes w' i = inodes w i)" .
qed
definition ex_alias_stat :: stat where
  "ex_alias_stat = stat_of (ex_inode (Lnk ''alias-20230101000000'') 7 8 0x1FF 11)"

text \<open>
  Another process replaces \<^verbatim>\<open>alias.new\<close>, between its creation and its opening, by a
  link of its own with target \<open>t\<close>.
\<close>

definition ex_replace :: "string \<Rightarrow> step list" where
  "ex_replace t =
     [ex_ok,
      \<lparr> env_writes =
          [(20, ex_inode (Lnk t) 0 0 0x1FF 30),
           (1, ex_inode (Dir [(''alias'', 2), (''alias-20230101000000'', 3),
                              (''alias.new'', 20)]) 0 0 0x1ED 30)],
        fault = None \<rparr>]"

theorem alias_swap_atomic_witness:
  "faults_only (ex_link_world [])
   \<and> dir_at 1 [(''alias'', 2), (''alias-20230101000000'', 3)] (ex_link_world [])
   \<and> map_of [(''alias'', 2), (''alias-20230101000000'', 3::nat)] ''alias'' = Some 2
   \<and> lnk_at 2 ''alias-20230101000000'' (ex_link_world [])
   \<and> inodes (ex_link_world []) (next_ino (ex_link_world [])) = None
   \<and> fst (update_nssdb_symlink 1 ex_alias_stat (ex_link_world [])) = Inr ()
   \<and> alias_target 1 (snd (update_nssdb_symlink 1 ex_alias_stat (ex_link_world [])))
       = Some ''alias-20261030090807''
   \<and> lnk_owned 11 ''alias-20261030090807'' 7 8
       (snd (update_nssdb_symlink 1 ex_alias_stat (ex_link_world [])))
   \<and> journal (snd (update_nssdb_symlink 1 ex_alias_stat (ex_link_world [])))
       = [Ev_symlinkat 1 ''alias.new'' ''alias-20261030090807'', Ev_chown 11,
          Ev_renameat 1 ''alias.new'' ''alias'']
   \<and> quiet_from 2 (ex_link_world (ex_replace ''alias-20261030090807''))
   \<and> fst (update_nssdb_symlink 1 ex_alias_stat
             (ex_link_world (ex_replace ''alias-20261030090807''))) = Inr ()
   \<and> alias_target 1 (snd (update_nssdb_symlink 1 ex_alias_stat
             (ex_link_world (ex_replace ''alias-20261030090807''))))
       = Some ''alias-20261030090807''"
proof -
  let ?w = "ex_link_world []"
  let ?es = "[(''alias'', 2), (''alias-20230101000000'', 3::nat)]"
  let ?p = "update_nssdb_symlink 1 ex_alias_stat ?w"
  let ?v = "ex_link_world (ex_replace ''alias-20261030090807'')"
  let ?q = "update_nssdb_symlink 1 ex_alias_stat ?v"
  have a: "faults_only ?w"
    by (simp add: faults_only_def ex_link_world_def ex_world_def)
  have b: "dir_at 1 ?es ?w"
    by (simp add: dir_at_def ex_link_world_def ex_world_def ex_fs_def ex_inode_def)
  have c: "map_of ?es ''alias'' = Some 2" by simp
  have d: "lnk_at 2 ''alias-20230101000000'' ?w"
    by (simp add: lnk_at_def ex_link_world_def ex_world_def ex_fs_def ex_inode_def)
  have e: "inodes ?w (next_ino ?w) = None"
    by (simp add: ex_link_world_def ex_world_def ex_fs_def)
  have f: "fst ?p = Inr ()" by code_simp
  have g: "cstr (new_dbdir_name ?w) = ''alias-20261030090807''" "next_ino ?w = 11"
    "journal ?w = []" "st_uid ex_alias_stat = 7" "st_gid ex_alias_stat = 8"
    by (simp_all add: cstr_def ex_link_world_def ex_world_def ex_alias_stat_def stat_of_def
          ex_inode_def)
  have h: "quiet_from 2 ?v"
    by (simp add: quiet_from_def ex_link_world_def ex_world_def ex_replace_def)
  have i: "fst ?q = Inr ()" by code_simp
  have j: "cstr (new_dbdir_name ?v) = ''alias-20261030090807''"
    by (simp add: cstr_def ex_link_world_def ex_world_def)
  from alias_swap_atomic [OF fst_eqD [OF f], of ?es 2 "''alias-20230101000000''"] a b c d e
  have 1: "alias_target 1 (snd ?p) = Some ''alias-20261030090807''
     \<and> lnk_owned 11 ''alias-20261030090807'' 7 8 (snd ?p)
     \<and> journal (snd ?p) = [Ev_symlinkat 1 ''alias.new'' ''alias-20261030090807'', Ev_chown 11,
          Ev_renameat 1 ''alias.new'' ''alias'']"
    unfolding g by simp
  from alias_swap_atomic [OF fst_eqD [OF i], of "[]" 0 "[]"] h
  have 2: "alias_target 1 (snd ?q) = Some ''alias-20261030090807''"
    unfolding j by simp
  from a b c d e f 1 h i 2 show ?thesis by blast
qed

text \<open>
  The swap stopped between its calls: by a failing \<^verbatim>\<open>fchown\<close>, and by a failing
  \<^verbatim>\<open>renameat\<close>. The reader still finds the old generation's name.
\<close>

definition ex_fail_at :: "nat \<Rightarrow> step list" where
  "ex_fail_at n = replicate n ex_ok @ [\<lparr> env_writes = [], fault = Some EIO \<rparr>]"

definition ex_seen :: "(err + unit) \<times> world \<Rightarrow> (err + unit) \<times> string option" where
  "ex_seen p = (fst p, alias_target 1 (snd p))"

lemma alias_swap_stopped:
  "ex_seen (update_nssdb_symlink 1 ex_alias_stat (ex_link_world (ex_fail_at 5)))
     = (Inl (FATAL ''Failed to set symbolic link ownership: alias.new''),
        Some ''alias-20230101000000'')"
  "ex_seen (update_nssdb_symlink 1 ex_alias_stat (ex_link_world (ex_fail_at 7)))
     = (Inl (FATAL ''Failed to rename symbolic link: alias.new to alias''),
        Some ''alias-20230101000000'')"
  "ex_seen (update_nssdb_symlink 1 ex_alias_stat (ex_link_world (ex_fail_at 8)))
     = (Inr (), Some ''alias-20261030090807'')"
  by code_simp+

text \<open>
  The read-back at work: the link another process has put under \<^verbatim>\<open>alias.new\<close> names
  a generation of its own, of the same length. The run stops, and the alias is the old
  one.
\<close>

lemma alias_swap_foreign_link:
  "ex_seen (update_nssdb_symlink 1 ex_alias_stat
              (ex_link_world (ex_replace ''alias-66660101000000'')))
     = (Inl (FATAL ''Symbolic link target changed''), Some ''alias-20230101000000'')"
  by code_simp

section \<open>What a run leaves alone\<close>

text \<open>
  The run starts in a world \<open>W\<close>, with \<open>c\<close> the configuration directory and \<open>es0\<close>
  its entries. Other processes write at most the inodes in \<open>X\<close>, which are inodes of
  \<open>W\<close> other than \<open>c\<close>. What the run itself writes, until it renames the alias, are
  inodes it has created, and the configuration directory, to which it adds names.
\<close>

fun swap_or_reap :: "event \<Rightarrow> bool" where
  "swap_or_reap (Ev_renameat d a b) = True"
| "swap_or_reap (Ev_unlinkat d a) = True"
| "swap_or_reap ev = False"

text \<open>A directory may gain names; nothing else about the kind of an inode may change.\<close>

definition kind_le :: "kind \<Rightarrow> kind \<Rightarrow> bool" where
  "kind_le k k' =
     (k = k' \<or> (\<exists>es es'. k = Dir es \<and> k' = Dir es'
                  \<and> (\<forall>nm j. map_of es nm = Some j \<longrightarrow> map_of es' nm = Some j)))"

definition sched_ok :: "ino set \<Rightarrow> world \<Rightarrow> bool" where
  "sched_ok X w = (\<forall>st \<in> set (sched w). \<forall>p \<in> set (env_writes st). fst p \<in> X)"

text \<open>
  \<open>P\<close> lists inodes with a kind each of them keeps (up to names gained), all of them
  below \<open>nT\<close>; the content of an inode not listed there may be written.
\<close>

definition frame_ok ::
  "world \<Rightarrow> ino \<Rightarrow> (string \<times> ino) list \<Rightarrow> ino set \<Rightarrow> (ino \<times> kind) list \<Rightarrow> nat
     \<Rightarrow> world \<Rightarrow> bool" where
  "frame_ok W c es0 X P nT w =
     (c < next_ino W \<and> (\<forall>i \<in> X. i < next_ino W \<and> i \<noteq> c)
      \<and> next_ino W \<le> nT \<and> nT \<le> next_ino w \<and> (\<forall>i \<ge> next_ino w. inodes w i = None)
      \<and> (\<forall>i < next_ino W. i \<noteq> c \<longrightarrow> i \<notin> X \<longrightarrow> inodes w i = inodes W i)
      \<and> (\<exists>d es. inodes w c = Some d \<and> i_kind d = Dir es
            \<and> (\<forall>nm j. map_of es nm = Some j \<longrightarrow> map_of es0 nm = Some j \<or> next_ino W \<le> j)
            \<and> (\<forall>nm j. map_of es0 nm = Some j \<longrightarrow> map_of es nm = Some j))
      \<and> (\<forall>i d es. next_ino W \<le> i \<longrightarrow> inodes w i = Some d \<longrightarrow> i_kind d = Dir es
            \<longrightarrow> (\<forall>p \<in> set es. next_ino W \<le> snd p))
      \<and> (\<forall>s. nss w = Some s \<longrightarrow> next_ino W \<le> fst s \<and> fst s \<notin> fst ` set P)
      \<and> (\<exists>evs. journal w = journal W @ evs \<and> (\<forall>e \<in> set evs. \<not> swap_or_reap e))
      \<and> (\<forall>p \<in> set P. fst p < nT \<and> fst p \<notin> X
            \<and> (\<exists>n. inodes w (fst p) = Some n \<and> kind_le (snd p) (i_kind n))))"

definition run_inv ::
  "world \<Rightarrow> ino \<Rightarrow> (string \<times> ino) list \<Rightarrow> ino set \<Rightarrow> (ino \<times> kind) list \<Rightarrow> nat
     \<Rightarrow> world \<Rightarrow> bool" where
  "run_inv W c es0 X P nT w = (sched_ok X w \<and> frame_ok W c es0 X P nT w)"

lemma kind_le_refl [simp]: "kind_le k k"
  by (simp add: kind_le_def)

lemma kind_le_snoc:
  "kind_le k (Dir es) \<Longrightarrow> kind_le k (Dir (es @ [(name, j)]))"
  unfolding kind_le_def by (auto simp: map_add_def)

lemma frame_ok_sched [simp]: "frame_ok W c es0 X P nT (w\<lparr>sched := s\<rparr>) = frame_ok W c es0 X P nT w"
  by (simp add: frame_ok_def)

lemma frame_ok_log_ev:
  "frame_ok W c es0 X P nT w \<Longrightarrow> \<not> swap_or_reap e \<Longrightarrow> frame_ok W c es0 X P nT (log_ev e w)"
  unfolding frame_ok_def log_ev_def by auto

lemma frame_ok_set_inode:
  assumes "frame_ok W c es0 X P nT w" and "next_ino W \<le> fd" and "inodes w fd = Some n"
    and "i_kind n' = i_kind n \<or> ((\<exists>bs. i_kind n' = Reg bs) \<and> fd \<notin> fst ` set P)"
  shows "frame_ok W c es0 X P nT (set_inode fd n' w)"
proof -
  from assms(1) have f: "c < next_ino W" "\<forall>i \<ge> next_ino w. inodes w i = None"
    by (simp_all add: frame_ok_def)
  from f assms(2) have cf: "c \<noteq> fd" by auto
  have pins: "\<forall>p \<in> set P. fst p < nT \<and> fst p \<notin> X
            \<and> (\<exists>m. inodes (set_inode fd n' w) (fst p) = Some m \<and> kind_le (snd p) (i_kind m))"
  proof
    fix p assume p: "p \<in> set P"
    with assms(1) obtain m where m: "fst p < nT" "fst p \<notin> X" "inodes w (fst p) = Some m"
      "kind_le (snd p) (i_kind m)"
      by (auto simp: frame_ok_def)
    show "fst p < nT \<and> fst p \<notin> X
            \<and> (\<exists>m. inodes (set_inode fd n' w) (fst p) = Some m \<and> kind_le (snd p) (i_kind m))"
    proof (cases "fst p = fd")
      case True
      with p assms(3,4) m show ?thesis by (auto simp: set_inode_def)
    next
      case False
      with m show ?thesis by (simp add: set_inode_def)
    qed
  qed
  have new: "\<forall>i d es. next_ino W \<le> i \<longrightarrow> inodes (set_inode fd n' w) i = Some d
            \<longrightarrow> i_kind d = Dir es \<longrightarrow> (\<forall>p \<in> set es. next_ino W \<le> snd p)"
  proof (intro allI impI)
    fix i d es
    assume i: "next_ino W \<le> i" "inodes (set_inode fd n' w) i = Some d" "i_kind d = Dir es"
    show "\<forall>p \<in> set es. next_ino W \<le> snd p"
    proof (cases "i = fd")
      case True
      with i assms(4) have "i_kind n = Dir es" by (auto simp: set_inode_def)
      with assms(1,2,3) show ?thesis unfolding frame_ok_def by blast
    next
      case False
      with i have "inodes w i = Some d" by (simp add: set_inode_def)
      with assms(1) i show ?thesis unfolding frame_ok_def by blast
    qed
  qed
  from f(2) assms(3) have lt: "fd < next_ino w" by (cases "fd < next_ino w") auto
  from assms(1,2) cf pins new lt show ?thesis
    unfolding frame_ok_def by (simp add: set_inode_def)
qed

lemma frame_ok_add_entry:
  assumes "frame_ok W c es0 X P nT w" and "next_ino W \<le> d \<or> d = c"
    and "inodes w d = Some dn" and "i_kind dn = Dir es" and "map_of es name = None"
    and "\<forall>es'. i_kind n' = Dir es' \<longrightarrow> es' = []"
  shows "frame_ok W c es0 X P nT (add_entry d dn es name n' w)"
proof -
  let ?k = "next_ino w"
  let ?w' = "add_entry d dn es name n' w"
  from assms(1) have f: "c < next_ino W" "\<forall>i \<ge> next_ino w. inodes w i = None"
    "next_ino W \<le> nT" "nT \<le> next_ino w"
    by (simp_all add: frame_ok_def)
  from f have kn: "inodes w ?k = None" by simp
  with assms(3) have dk: "d \<noteq> ?k" by auto
  from f have ck: "c \<noteq> ?k" by simp
  have ino: "inodes ?w' = (inodes w)(d \<mapsto> dn\<lparr>i_kind := Dir (es @ [(name, ?k)]),
                                               i_mtim := now_ts w\<rparr>, ?k \<mapsto> n')"
    by (simp add: add_entry_def)
  have conf: "\<exists>d' es'. inodes ?w' c = Some d' \<and> i_kind d' = Dir es'
            \<and> (\<forall>nm j. map_of es' nm = Some j \<longrightarrow> map_of es0 nm = Some j \<or> next_ino W \<le> j)
            \<and> (\<forall>nm j. map_of es0 nm = Some j \<longrightarrow> map_of es' nm = Some j)"
  proof (cases "d = c")
    case True
    from assms(1) True assms(3,4)
    have a: "\<forall>nm j. map_of es nm = Some j \<longrightarrow> map_of es0 nm = Some j \<or> next_ino W \<le> j"
      and b: "\<forall>nm j. map_of es0 nm = Some j \<longrightarrow> map_of es nm = Some j"
      by (auto simp: frame_ok_def)
    from f have "next_ino W \<le> ?k" by simp
    with a b True ck assms(5) show ?thesis
      by (auto simp: add_entry_def map_add_def split: option.splits if_splits)
  next
    case False
    with assms(1) ck show ?thesis by (simp add: add_entry_def frame_ok_def)
  qed
  have new: "\<forall>i d' es'. next_ino W \<le> i \<longrightarrow> inodes ?w' i = Some d'
            \<longrightarrow> i_kind d' = Dir es' \<longrightarrow> (\<forall>p \<in> set es'. next_ino W \<le> snd p)"
  proof (intro allI impI)
    fix i d' es'
    assume i: "next_ino W \<le> i" "inodes ?w' i = Some d'" "i_kind d' = Dir es'"
    show "\<forall>p \<in> set es'. next_ino W \<le> snd p"
    proof (cases "i = ?k")
      case True
      with i assms(6) show ?thesis by (simp add: ino)
    next
      case nk: False
      show ?thesis
      proof (cases "i = d")
        case True
        with i nk have es': "es' = es @ [(name, ?k)]" by (auto simp: ino)
        from assms(1) i(1) True assms(3,4) have "\<forall>p \<in> set es. next_ino W \<le> snd p"
          unfolding frame_ok_def by blast
        with es' f show ?thesis by auto
      next
        case False
        with nk i have "inodes w i = Some d'" by (simp add: ino)
        with assms(1) i show ?thesis unfolding frame_ok_def by blast
      qed
    qed
  qed
  have pins: "\<forall>p \<in> set P. fst p < nT \<and> fst p \<notin> X
            \<and> (\<exists>m. inodes ?w' (fst p) = Some m \<and> kind_le (snd p) (i_kind m))"
  proof
    fix p assume p: "p \<in> set P"
    with assms(1) obtain m where m: "fst p < nT" "fst p \<notin> X" "inodes w (fst p) = Some m"
      "kind_le (snd p) (i_kind m)"
      by (auto simp: frame_ok_def)
    from m f have pk: "fst p \<noteq> ?k" by simp
    show "fst p < nT \<and> fst p \<notin> X
            \<and> (\<exists>m. inodes ?w' (fst p) = Some m \<and> kind_le (snd p) (i_kind m))"
    proof (cases "fst p = d")
      case True
      with m assms(3,4) have "kind_le (snd p) (Dir es)" by simp
      from kind_le_snoc [OF this] True m pk show ?thesis by (simp add: ino)
    next
      case False
      with m pk show ?thesis by (simp add: ino)
    qed
  qed
  have old: "\<forall>i < next_ino W. i \<noteq> c \<longrightarrow> i \<notin> X \<longrightarrow> inodes ?w' i = inodes W i"
    using assms(1,2) f by (auto simp: ino frame_ok_def)
  have nxt: "nT \<le> next_ino ?w'" "\<forall>i \<ge> next_ino ?w'. inodes ?w' i = None"
    using f dk assms(3) by (auto simp: add_entry_def)
  have rest: "(\<forall>s. nss ?w' = Some s \<longrightarrow> next_ino W \<le> fst s \<and> fst s \<notin> fst ` set P)"
    "(\<exists>evs. journal ?w' = journal W @ evs \<and> (\<forall>e \<in> set evs. \<not> swap_or_reap e))"
    "\<forall>i \<in> X. i < next_ino W \<and> i \<noteq> c"
    using assms(1) by (simp_all add: add_entry_def frame_ok_def)
  from f conf new pins old nxt rest show ?thesis
    unfolding frame_ok_def by blast
qed

lemma frame_ok_put:
  assumes "frame_ok W c es0 X P nT w" and "x \<in> X"
  shows "frame_ok W c es0 X P nT (w\<lparr>inodes := (inodes w)(x \<mapsto> n')\<rparr>)"
proof -
  from assms have x: "x < next_ino W" "x \<noteq> c" "\<forall>p \<in> set P. fst p \<noteq> x"
    "next_ino W \<le> next_ino w"
    by (auto simp: frame_ok_def)
  from assms(1) have "\<forall>i \<ge> next_ino w. inodes w i = None" by (simp add: frame_ok_def)
  with x have xn: "\<not> next_ino w \<le> x" by simp
  from assms x xn show ?thesis
    unfolding frame_ok_def by auto
qed

lemma frame_ok_env_write:
  assumes "frame_ok W c es0 X P nT w" and "fst p \<in> X"
  shows "frame_ok W c es0 X P nT (env_write p w)"
proof -
  from assms have x: "fst p < next_ino w" by (auto simp: frame_ok_def)
  then have mx: "max (next_ino w) (Suc (fst p)) = next_ino w" by simp
  have same: "w\<lparr>inodes := (inodes w)(fst p \<mapsto> snd p), next_ino := next_ino w\<rparr>
      = w\<lparr>inodes := (inodes w)(fst p \<mapsto> snd p)\<rparr>" by simp
  from frame_ok_put [OF assms] assms(1) show ?thesis
    by (simp add: env_write_def mx same split: option.splits)
qed

lemma frame_ok_fold_env_write:
  "frame_ok W c es0 X P nT w \<Longrightarrow> \<forall>p \<in> set ps. fst p \<in> X
   \<Longrightarrow> frame_ok W c es0 X P nT (fold env_write ps w)"
  by (induction ps arbitrary: w) (simp_all add: frame_ok_env_write)

lemma run_inv_env_step:
  "run_inv W c es0 X P nT w \<Longrightarrow> run_inv W c es0 X P nT (snd (env_step w))"
proof (cases "sched w")
  case Nil
  assume "run_inv W c es0 X P nT w"
  with Nil show ?thesis by (simp add: env_step_def)
next
  case (Cons s ss)
  assume r: "run_inv W c es0 X P nT w"
  with Cons have a: "\<forall>p \<in> set (env_writes s). fst p \<in> X" and b: "sched_ok X (w\<lparr>sched := ss\<rparr>)"
    by (auto simp: run_inv_def sched_ok_def)
  from r have "frame_ok W c es0 X P nT (w\<lparr>sched := ss\<rparr>)" by (simp add: run_inv_def)
  from frame_ok_fold_env_write [OF this a] b Cons show ?thesis
    by (simp add: run_inv_def env_step_def sched_ok_def)
qed

lemma sched_ok_ops [simp]:
  "sched_ok X (log_ev e w) = sched_ok X w"
  "sched_ok X (set_inode i n w) = sched_ok X w"
  "sched_ok X (add_entry d dn es nm n w) = sched_ok X w"
  by (simp_all add: sched_ok_def log_ev_def set_inode_def add_entry_def)

lemma run_inv_log_ev:
  "run_inv W c es0 X P nT w \<Longrightarrow> \<not> swap_or_reap e \<Longrightarrow> run_inv W c es0 X P nT (log_ev e w)"
  by (simp add: run_inv_def frame_ok_log_ev)

lemma run_inv_set_inode:
  "run_inv W c es0 X P nT w \<Longrightarrow> next_ino W \<le> fd \<Longrightarrow> inodes w fd = Some n
   \<Longrightarrow> i_kind n' = i_kind n \<or> ((\<exists>bs. i_kind n' = Reg bs) \<and> fd \<notin> fst ` set P)
   \<Longrightarrow> run_inv W c es0 X P nT (set_inode fd n' w)"
  by (simp add: run_inv_def frame_ok_set_inode)

lemma run_inv_add_entry:
  "run_inv W c es0 X P nT w \<Longrightarrow> next_ino W \<le> d \<or> d = c
   \<Longrightarrow> inodes w d = Some dn \<Longrightarrow> i_kind dn = Dir es \<Longrightarrow> map_of es name = None
   \<Longrightarrow> \<forall>es'. i_kind n' = Dir es' \<longrightarrow> es' = []
   \<Longrightarrow> run_inv W c es0 X P nT (add_entry d dn es name n' w)"
  by (simp add: run_inv_def frame_ok_add_entry)

lemma run_inv_fields [simp]:
  "run_inv W c es0 X P nT (w\<lparr>euid := u\<rparr>) = run_inv W c es0 X P nT w"
  "run_inv W c es0 X P nT (w\<lparr>egid := g\<rparr>) = run_inv W c es0 X P nT w"
  "run_inv W c es0 X P nT (w\<lparr>cwd := d\<rparr>) = run_inv W c es0 X P nT w"
  "run_inv W c es0 X P nT (w\<lparr>new_dbdir_name := s\<rparr>) = run_inv W c es0 X P nT w"
  "run_inv W c es0 X P nT (w\<lparr>old_dbdir_name := s\<rparr>) = run_inv W c es0 X P nT w"
  by (simp_all add: run_inv_def frame_ok_def sched_ok_def)

lemma run_inv_nss:
  "run_inv W c es0 X P nT w \<Longrightarrow> run_inv W c es0 X P nT (w\<lparr>nss := None\<rparr>)"
  "run_inv W c es0 X P nT w \<Longrightarrow> next_ino W \<le> i \<Longrightarrow> i \<notin> fst ` set P
   \<Longrightarrow> run_inv W c es0 X P nT (w\<lparr>nss := Some (i, db)\<rparr>)"
  by (simp_all add: run_inv_def frame_ok_def sched_ok_def)

lemma run_inv_lookup:
  assumes "run_inv W c es0 X P nT w" and "next_ino W \<le> d"
    and "inodes w d = Some dn" and "i_kind dn = Dir es" and "map_of es name = Some j"
  shows "next_ino W \<le> j"
proof -
  from assms(5) have "(name, j) \<in> set es" by (rule map_of_SomeD)
  moreover from assms(1-4) have "\<forall>p \<in> set es. next_ino W \<le> snd p"
    unfolding run_inv_def frame_ok_def by blast
  ultimately show ?thesis by auto
qed

lemma run_inv_next:
  assumes "run_inv W c es0 X P nT w"
  shows "next_ino W \<le> next_ino w" and "nT \<le> next_ino w" and "inodes w (next_ino w) = None"
    and "next_ino w \<notin> fst ` set P"
  using assms by (auto simp: run_inv_def frame_ok_def)

lemma run_inv_nss_inode:
  "run_inv W c es0 X P nT w \<Longrightarrow> nss w = Some s \<Longrightarrow> next_ino W \<le> fst s \<and> fst s \<notin> fst ` set P"
  by (simp add: run_inv_def frame_ok_def)

subsection \<open>Computations that keep an invariant\<close>

text \<open>
  \<open>safe I m \<psi>\<close>: started where \<open>I\<close> holds, \<open>m\<close> ends where \<open>I\<close> holds, however it
  ends, and a result it returns satisfies \<open>\<psi>\<close>.
\<close>

definition safe :: "(world \<Rightarrow> bool) \<Rightarrow> 'a prog \<Rightarrow> ('a \<Rightarrow> bool) \<Rightarrow> bool" where
  "safe I m \<psi> = hoare I m (\<lambda>x w. I w \<and> \<psi> x) (\<lambda>e w. I w)"

lemma safeD:
  assumes "safe I m \<psi>" and "I w" and "m w = (r, w')"
  shows "I w'" and "\<And>x. r = Inr x \<Longrightarrow> \<psi> x"
  using assms unfolding safe_def hoare_def by (cases r; fastforce)+

lemma safe_preturn: "\<psi> x \<Longrightarrow> safe I (preturn x) \<psi>"
  by (simp add: safe_def hoare_def preturn_def)

lemma safe_pfail: "safe I (pfail e) \<psi>"
  by (simp add: safe_def hoare_def pfail_def)

lemma safe_pbind:
  assumes "safe I m \<phi>" and "\<And>x. \<phi> x \<Longrightarrow> safe I (f x) \<psi>"
  shows "safe I (pbind m f) \<psi>"
  unfolding safe_def
proof (rule hoare_pbind)
  show "hoare I m (\<lambda>x w. I w \<and> \<phi> x) (\<lambda>e w. I w)" using assms(1) by (simp add: safe_def)
  fix x
  show "hoare (\<lambda>w. I w \<and> \<phi> x) (f x) (\<lambda>x w. I w \<and> \<psi> x) (\<lambda>e w. I w)"
    using assms(2) [of x] by (auto simp: safe_def hoare_def)
qed

lemma safe_pseq: "safe I m \<phi> \<Longrightarrow> safe I n \<psi> \<Longrightarrow> safe I (pseq m n) \<psi>"
  unfolding pseq_def by (rule safe_pbind)

lemma safe_weaken: "safe I m \<phi> \<Longrightarrow> (\<And>x. \<phi> x \<Longrightarrow> \<psi> x) \<Longrightarrow> safe I m \<psi>"
  unfolding safe_def by (erule hoare_weaken) auto

lemma safe_or_fatal:
  "safe I m (\<lambda>r. \<forall>x. r = Inr x \<longrightarrow> \<psi> x) \<Longrightarrow> safe I (or_fatal m msg) \<psi>"
  unfolding or_fatal_def
  by (erule safe_pbind) (auto intro: safe_pfail safe_preturn split: sum.splits)

lemma safe_or_nss_fatal:
  "safe I m (\<lambda>r. \<forall>x. r = Inr x \<longrightarrow> \<psi> x) \<Longrightarrow> safe I (or_nss_fatal m msg) \<psi>"
  unfolding or_nss_fatal_def
  by (erule safe_pbind) (auto intro: safe_pfail safe_preturn split: sum.splits)

lemma safe_if:
  "(b \<Longrightarrow> safe I m \<psi>) \<Longrightarrow> (\<not> b \<Longrightarrow> safe I n \<psi>) \<Longrightarrow> safe I (if b then m else n) \<psi>"
  by simp

lemma safe_passert: "safe I (passert b msg) (\<lambda>_. b)"
  by (simp add: passert_def safe_preturn safe_pfail)

lemma safe_syscall:
  assumes env: "\<And>w. I w \<Longrightarrow> I (snd (env_step w))"
    and op: "\<And>w. I w \<Longrightarrow> I (snd (op w)) \<and> (\<forall>x. fst (op w) = Inr x \<longrightarrow> \<psi> x)"
  shows "safe I (syscall op) (\<lambda>r. \<forall>x. r = Inr x \<longrightarrow> \<psi> x)"
  unfolding safe_def
proof (rule hoare_syscall)
  fix w assume "I w"
  note i = env [OF this]
  from i op [OF i]
  show "case fst (env_step w) of
          None \<Rightarrow> (case op (snd (env_step w)) of
                     (r, w2) \<Rightarrow> I w2 \<and> (\<forall>x. r = Inr x \<longrightarrow> \<psi> x))
        | Some e \<Rightarrow> I (snd (env_step w)) \<and> (\<forall>x. Inl e = Inr x \<longrightarrow> \<psi> x)"
    by (cases "op (snd (env_step w))") (auto split: option.splits)
qed

lemma safe_reader: "(\<And>w. f w = (Inr (g w), w)) \<Longrightarrow> (\<And>w. \<psi> (g w)) \<Longrightarrow> safe I f \<psi>"
  by (simp add: safe_def hoare_def)

lemma safe_call:
  assumes "\<And>w. run_inv W c es0 X P nT w \<Longrightarrow>
             run_inv W c es0 X P nT (snd (op w)) \<and> (\<forall>x. fst (op w) = Inr x \<longrightarrow> \<psi> x)"
  shows "safe (run_inv W c es0 X P nT) (syscall op) (\<lambda>r. \<forall>x. r = Inr x \<longrightarrow> \<psi> x)"
  by (rule safe_syscall) (erule run_inv_env_step, erule assms)

lemma safe_call0:
  assumes "\<And>w. run_inv W c es0 X P nT w \<Longrightarrow> run_inv W c es0 X P nT (snd (op w))"
  shows "safe (run_inv W c es0 X P nT) (syscall op) (\<lambda>_. True)"
  by (rule safe_weaken [OF safe_call [where \<psi> = "\<lambda>_. True"]]) (simp_all add: assms)

text \<open>The rules for a computation whose result does not matter.\<close>

lemma safe_pseq0:
  "safe I m (\<lambda>_. True) \<Longrightarrow> safe I n \<psi> \<Longrightarrow> safe I (pseq m n) \<psi>"
  by (rule safe_pseq)

lemma safe_pbind0:
  "safe I m (\<lambda>_. True) \<Longrightarrow> (\<And>x. safe I (f x) \<psi>) \<Longrightarrow> safe I (pbind m f) \<psi>"
  by (rule safe_pbind)

lemma safe_or_fatal0: "safe I m (\<lambda>_. True) \<Longrightarrow> safe I (or_fatal m msg) (\<lambda>_. True)"
  by (rule safe_or_fatal) (erule safe_weaken, simp)

lemma safe_or_nss_fatal0:
  "safe I m (\<lambda>_. True) \<Longrightarrow> safe I (or_nss_fatal m msg) (\<lambda>_. True)"
  by (rule safe_or_nss_fatal) (erule safe_weaken, simp)

lemma safe_passert0: "safe I (passert b msg) (\<lambda>_. True)"
  by (rule safe_weaken [OF safe_passert]) simp

lemma safe_preturn0: "safe I (preturn x) (\<lambda>_. True)"
  by (rule safe_preturn) simp

lemma safe_let: "safe I (f v) \<psi> \<Longrightarrow> safe I (let x = v in f x) \<psi>"
  by simp

lemma safe_case_prod:
  "(\<And>a b. safe I (f a b) \<psi>) \<Longrightarrow> safe I (case p of (a, b) \<Rightarrow> f a b) \<psi>"
  by (cases p) simp

lemma safe_case_sum:
  "(\<And>a. safe I (l a) \<psi>) \<Longrightarrow> (\<And>b. safe I (r b) \<psi>)
   \<Longrightarrow> safe I (case s of Inl a \<Rightarrow> l a | Inr b \<Rightarrow> r b) \<psi>"
  by (cases s) simp_all

lemmas safe_struct =
  safe_pseq0 safe_pbind0 safe_or_fatal0 safe_or_nss_fatal0 safe_if safe_pfail safe_passert0
  safe_preturn0 safe_let safe_case_prod safe_case_sum

subsection \<open>The kernel calls and the invariant\<close>

lemma with_dir_cases:
  obtains (nodir) e where "with_dir d f w = (Inl e, w)"
  | (dir) dn es where "inodes w d = Some dn" "i_kind dn = Dir es" "with_dir d f w = f dn es w"
  by (cases "inodes w d"; cases "i_kind (the (inodes w d))")
     (auto simp: with_dir_def with_inode_def)

lemma with_inode_cases:
  obtains (none) "with_inode fd f w = (Inl EBADF, w)"
  | (some) n where "inodes w fd = Some n" "with_inode fd f w = f n w"
  by (cases "inodes w fd") (auto simp: with_inode_def)

lemma open_inode_result:
  "open_inode i fl w = (r, w') \<Longrightarrow> w' = w \<and> (\<forall>fd. r = Inr fd \<longrightarrow> fd = i)"
  by (auto simp: open_inode_def split: option.splits kind.splits if_splits)

lemma safe_openat:
  assumes "next_ino W \<le> d \<or> O_CREAT \<notin> set fl"
  shows "safe (run_inv W c es0 X P nT) (openat d name fl m)
     (\<lambda>r. \<forall>fd. r = Inr fd \<longrightarrow>
        (next_ino W \<le> d \<longrightarrow> next_ino W \<le> fd)
        \<and> (O_CREAT \<in> set fl \<and> O_EXCL \<in> set fl \<longrightarrow> nT \<le> fd \<and> fd \<notin> fst ` set P))"
  unfolding openat_def
proof (rule safe_call)
  fix w assume i: "run_inv W c es0 X P nT w"
  let ?f = "\<lambda>dn es w.
       case map_of es name of
         None \<Rightarrow>
           if O_CREAT \<in> set fl
           then (Inr (next_ino w),
                 log_ev (Ev_creat d name)
                   (add_entry d dn es name (fresh_inode (Reg []) m w) w))
           else (Inl ENOENT, w)
       | Some i \<Rightarrow>
           if O_CREAT \<in> set fl \<and> O_EXCL \<in> set fl then (Inl EEXIST, w)
           else open_inode i fl w"
  let ?post = "\<lambda>p. run_inv W c es0 X P nT (snd p)
      \<and> (\<forall>x. fst p = Inr x \<longrightarrow>
            (next_ino W \<le> d \<longrightarrow> next_ino W \<le> x)
            \<and> (O_CREAT \<in> set fl \<and> O_EXCL \<in> set fl \<longrightarrow> nT \<le> x \<and> x \<notin> fst ` set P))"
  show "?post (with_dir d ?f w)"
  proof (cases rule: with_dir_cases [of d ?f w])
    case (nodir e)
    with i show ?thesis by simp
  next
    case (dir dn es)
    show ?thesis
    proof (cases "map_of es name")
      case None
      show ?thesis
      proof (cases "O_CREAT \<in> set fl")
        case True
        with assms have nd: "next_ino W \<le> d" by simp
        have "run_inv W c es0 X P nT
            (log_ev (Ev_creat d name) (add_entry d dn es name (fresh_inode (Reg []) m w) w))"
          by (intro run_inv_log_ev run_inv_add_entry [OF i _ dir(1,2) None])
             (simp_all add: nd fresh_inode_def)
        with dir None True run_inv_next [OF i] show ?thesis by simp
      next
        case False
        with dir None i show ?thesis by simp
      qed
    next
      case (Some j)
      show ?thesis
      proof (cases "O_CREAT \<in> set fl \<and> O_EXCL \<in> set fl")
        case True
        with dir Some i show ?thesis by simp
      next
        case False
        obtain r w' where o: "open_inode j fl w = (r, w')" by (cases "open_inode j fl w")
        from open_inode_result [OF o] have w': "w' = w" and r: "\<forall>fd. r = Inr fd \<longrightarrow> fd = j"
          by simp_all
        have "next_ino W \<le> d \<longrightarrow> next_ino W \<le> j"
          using run_inv_lookup [OF i _ dir(1,2) Some] by simp
        with dir Some False o w' r i show ?thesis by auto
      qed
    qed
  qed
qed

lemma safe_unchanged:
  assumes "\<And>w. snd (op w) = w"
  shows "safe (run_inv W c es0 X P nT) (syscall op) (\<lambda>_. True)"
  by (rule safe_call0) (simp add: assms)

lemma safe_silent:
  "safe (run_inv W c es0 X P nT) (open_abs p fl) (\<lambda>_. True)"
  "safe (run_inv W c es0 X P nT) (fstat fd) (\<lambda>_. True)"
  "safe (run_inv W c es0 X P nT) (readlinkat fd k) (\<lambda>_. True)"
  "safe (run_inv W c es0 X P nT) (close fd) (\<lambda>_. True)"
  "safe (run_inv W c es0 X P nT) (mmap fd len) (\<lambda>_. True)"
  "safe (run_inv W c es0 X P nT) (munmap fd len) (\<lambda>_. True)"
  "safe (run_inv W c es0 X P nT) (fdopendir fd) (\<lambda>_. True)"
  "safe (run_inv W c es0 X P nT) (readdir ns) (\<lambda>_. True)"
  "safe (run_inv W c es0 X P nT) closedir (\<lambda>_. True)"
  "safe (run_inv W c es0 X P nT) alloc (\<lambda>_. True)"
  "safe (run_inv W c es0 X P nT) (read_fd fd len) (\<lambda>_. True)"
  unfolding open_abs_def fstat_def readlinkat_def close_def mmap_def munmap_def
    fdopendir_def readdir_def closedir_def alloc_def read_fd_def
  by (rule safe_unchanged,
      simp add: with_dir_def with_inode_def open_inode_def
        split: option.splits kind.splits)+

lemma safe_open_proc_fd:
  "safe (run_inv W c es0 X P nT) (open_proc_fd orig fl) (\<lambda>r. \<forall>fd. r = Inr fd \<longrightarrow> fd = orig)"
  unfolding open_proc_fd_def
  by (rule safe_call)
     (auto simp: open_inode_def split: option.splits kind.splits if_splits)

lemma safe_globals:
  "safe (run_inv W c es0 X P nT) get_new_dbdir_name (\<lambda>_. True)"
  "safe (run_inv W c es0 X P nT) get_old_dbdir_name (\<lambda>_. True)"
  "safe (run_inv W c es0 X P nT) gmtime_now (\<lambda>_. True)"
  "safe (run_inv W c es0 X P nT) geteuid (\<lambda>_. True)"
  "safe (run_inv W c es0 X P nT) getegid (\<lambda>_. True)"
  "safe (run_inv W c es0 X P nT) (set_new_dbdir_name s) (\<lambda>_. True)"
  "safe (run_inv W c es0 X P nT) (set_old_dbdir_name s) (\<lambda>_. True)"
  by (simp_all add: safe_def hoare_def get_new_dbdir_name_def get_old_dbdir_name_def
        gmtime_now_def geteuid_def getegid_def set_new_dbdir_name_def set_old_dbdir_name_def)

lemma safe_ids:
  "safe (run_inv W c es0 X P nT) (seteuid u) (\<lambda>_. True)"
  "safe (run_inv W c es0 X P nT) (setegid g) (\<lambda>_. True)"
  "safe (run_inv W c es0 X P nT) (fchdir fd) (\<lambda>_. True)"
  unfolding seteuid_def setegid_def fchdir_def
  by (rule safe_call0,
      auto simp: with_dir_def with_inode_def split: option.splits kind.splits)+

lemma safe_mkdirat:
  assumes "next_ino W \<le> d \<or> d = c"
  shows "safe (run_inv W c es0 X P nT) (mkdirat d name m) (\<lambda>_. True)"
  unfolding mkdirat_def
proof (rule safe_call0)
  fix w assume i: "run_inv W c es0 X P nT w"
  let ?f = "\<lambda>dn es w.
       case map_of es name of
         Some i \<Rightarrow> (Inl EEXIST, w)
       | None \<Rightarrow>
           (Inr (), log_ev (Ev_mkdirat d name)
                      (add_entry d dn es name (fresh_inode (Dir []) m w) w))"
  show "run_inv W c es0 X P nT (snd (with_dir d ?f w))"
  proof (cases rule: with_dir_cases [of d ?f w])
    case (nodir e)
    with i show ?thesis by simp
  next
    case (dir dn es)
    show ?thesis
    proof (cases "map_of es name")
      case None
      have "run_inv W c es0 X P nT
          (log_ev (Ev_mkdirat d name) (add_entry d dn es name (fresh_inode (Dir []) m w) w))"
        by (intro run_inv_log_ev run_inv_add_entry [OF i assms dir(1,2) None])
           (simp_all add: fresh_inode_def)
      with dir None show ?thesis by simp
    next
      case (Some j)
      with dir i show ?thesis by simp
    qed
  qed
qed

lemma safe_symlinkat:
  assumes "next_ino W \<le> d \<or> d = c"
  shows "safe (run_inv W c es0 X P nT) (symlinkat t d name) (\<lambda>_. True)"
  unfolding symlinkat_def
proof (rule safe_call0)
  fix w assume i: "run_inv W c es0 X P nT w"
  let ?f = "\<lambda>dn es w.
       case map_of es name of
         Some i \<Rightarrow> (Inl EEXIST, w)
       | None \<Rightarrow>
           if t = [] then (Inl ENOENT, w)
           else (Inr (), log_ev (Ev_symlinkat d name t)
                   (add_entry d dn es name
                      ((fresh_inode (Lnk t) 0x1FF w)\<lparr>i_perm := 0x1FF\<rparr>) w))"
  show "run_inv W c es0 X P nT (snd (with_dir d ?f w))"
  proof (cases rule: with_dir_cases [of d ?f w])
    case (nodir e)
    with i show ?thesis by simp
  next
    case (dir dn es)
    show ?thesis
    proof (cases "map_of es name")
      case None
      have "run_inv W c es0 X P nT
          (log_ev (Ev_symlinkat d name t)
             (add_entry d dn es name ((fresh_inode (Lnk t) 0x1FF w)\<lparr>i_perm := 0x1FF\<rparr>) w))"
        by (intro run_inv_log_ev run_inv_add_entry [OF i assms dir(1,2) None])
           (simp_all add: fresh_inode_def)
      with dir None i show ?thesis by simp
    next
      case (Some j)
      with dir i show ?thesis by simp
    qed
  qed
qed

text \<open>Owner, mode and timestamps of an inode the run has created.\<close>

lemma safe_meta:
  assumes "next_ino W \<le> fd"
  shows "safe (run_inv W c es0 X P nT) (fchown fd u g) (\<lambda>_. True)"
    and "safe (run_inv W c es0 X P nT) (fchmod fd m) (\<lambda>_. True)"
    and "safe (run_inv W c es0 X P nT) (futimens fd ta tb) (\<lambda>_. True)"
proof -
  have meta: "run_inv W c es0 X P nT (snd (with_inode fd (\<lambda>n w. (Inr (), log_ev e
        (set_inode fd (g n) w))) w))"
    if i: "run_inv W c es0 X P nT w" and e: "\<not> swap_or_reap e"
      and g: "\<And>n. i_kind (g n) = i_kind n"
    for w e and g :: "inode \<Rightarrow> inode"
  proof (cases rule: with_inode_cases
      [of fd "\<lambda>n w. (Inr (), log_ev e (set_inode fd (g n) w))" w])
    case none
    with i show ?thesis by simp
  next
    case (some n)
    have "run_inv W c es0 X P nT (log_ev e (set_inode fd (g n) w))"
      by (intro run_inv_log_ev run_inv_set_inode [OF i assms some(1)] e) (simp add: g)
    with some show ?thesis by simp
  qed
  show "safe (run_inv W c es0 X P nT) (fchown fd u g) (\<lambda>_. True)"
    unfolding fchown_def
    by (rule safe_call0, rule meta) simp_all
  show "safe (run_inv W c es0 X P nT) (fchmod fd m) (\<lambda>_. True)"
    unfolding fchmod_def
    by (rule safe_call0, rule meta) simp_all
  show "safe (run_inv W c es0 X P nT) (futimens fd ta tb) (\<lambda>_. True)"
    unfolding futimens_def
    by (rule safe_call0, rule meta) simp_all
qed

text \<open>The content of a file the run has created and that is not listed as kept.\<close>

lemma safe_fallocate:
  assumes "next_ino W \<le> fd" and "fd \<notin> fst ` set P"
  shows "safe (run_inv W c es0 X P nT) (fallocate fd len) (\<lambda>_. True)"
  unfolding fallocate_def
proof (rule safe_call0)
  fix w assume i: "run_inv W c es0 X P nT w"
  let ?f = "\<lambda>n w.
       case i_kind n of
         Reg bs \<Rightarrow>
           (Inr (), log_ev (Ev_fallocate fd)
              (set_inode fd (n\<lparr>i_kind := Reg (bs @ zeros (nat len - length bs))\<rparr>) w))
       | _ \<Rightarrow> (Inl EINVAL, w)"
  show "run_inv W c es0 X P nT (snd (with_inode fd ?f w))"
  proof (cases rule: with_inode_cases [of fd ?f w])
    case none
    with i show ?thesis by simp
  next
    case (some n)
    show ?thesis
    proof (cases "i_kind n")
      case (Reg bs)
      have "run_inv W c es0 X P nT (log_ev (Ev_fallocate fd)
              (set_inode fd (n\<lparr>i_kind := Reg (bs @ zeros (nat len - length bs))\<rparr>) w))"
        by (intro run_inv_log_ev run_inv_set_inode [OF i assms(1) some(1)])
           (simp_all add: assms(2))
      with some Reg show ?thesis by simp
    qed (use some i in simp_all)
  qed
qed

lemma safe_memcpy_map:
  assumes "next_ino W \<le> dest" and "dest \<notin> fst ` set P"
  shows "safe (run_inv W c es0 X P nT) (memcpy_map dest src len) (\<lambda>_. True)"
  unfolding safe_def
proof (rule hoareI)
  fix w assume i: "run_inv W c es0 X P nT w"
  show "case memcpy_map dest src len w of
          (Inl e, w') \<Rightarrow> run_inv W c es0 X P nT w'
        | (Inr x, w') \<Rightarrow> run_inv W c es0 X P nT w' \<and> True"
  proof (cases "inodes w dest")
    case None
    with i show ?thesis by (simp add: memcpy_map_def)
  next
    case (Some n)
    have "run_inv W c es0 X P nT (log_ev (Ev_memcpy dest src)
             (set_inode dest
                (n\<lparr>i_kind := Reg (take (nat len) (file_bytes w src @ zeros (nat len))
                                   @ drop (nat len) (file_bytes w dest)),
                   i_mtim := now_ts w\<rparr>) w))"
      by (intro run_inv_log_ev run_inv_set_inode [OF i assms(1) Some])
         (simp_all add: assms(2))
    with Some i show ?thesis by (simp add: memcpy_map_def)
  qed
qed

subsection \<open>The copying functions and the invariant\<close>

lemma safe_copy_fd:
  "safe (run_inv W c es0 X P nT) (copy_fd orig fl) (\<lambda>fd. fd = orig)"
  unfolding copy_fd_def
  by (rule safe_pseq0 [OF safe_or_fatal0 [OF safe_silent(10)]
        safe_or_fatal [OF safe_open_proc_fd]])

lemma safe_copy_file_contents:
  assumes "next_ino W \<le> dest" and "dest \<notin> fst ` set P"
  shows "safe (run_inv W c es0 X P nT) (copy_file_contents src dest path srcst) (\<lambda>_. True)"
  unfolding copy_file_contents_def
  by (intro safe_struct safe_fallocate [OF assms] safe_memcpy_map [OF assms] safe_silent)

lemma safe_openat0:
  "next_ino W \<le> d \<or> O_CREAT \<notin> set fl
   \<Longrightarrow> safe (run_inv W c es0 X P nT) (openat d name fl m) (\<lambda>_. True)"
  by (rule safe_weaken [OF safe_openat]) simp_all

lemma safe_openat_new:
  "next_ino W \<le> d
   \<Longrightarrow> safe (run_inv W c es0 X P nT) (or_fatal (openat d name fl m) msg)
         (\<lambda>fd. next_ino W \<le> fd)"
  by (rule safe_or_fatal, rule safe_weaken [OF safe_openat]) simp_all

lemma safe_openat_excl:
  "next_ino W \<le> d
   \<Longrightarrow> safe (run_inv W c es0 X P nT) (or_fatal (openat d name [O_RDWR, O_CREAT, O_EXCL] m) msg)
         (\<lambda>fd. next_ino W \<le> fd \<and> fd \<notin> fst ` set P)"
  by (rule safe_or_fatal, rule safe_weaken [OF safe_openat]) simp_all

lemma safe_copy_nssdb_file:
  assumes "next_ino W \<le> destdir"
  shows "safe (run_inv W c es0 X P nT) (copy_nssdb_file cfg srcdir destdir name) (\<lambda>_. True)"
  unfolding copy_nssdb_file_def
  apply (rule safe_pbind0)
   apply (rule safe_or_fatal0, rule safe_openat0, simp)
  apply (rule safe_pbind0)
   apply (intro safe_struct safe_silent)
  apply (rule safe_if, rule safe_pfail)
  apply (rule safe_pbind [OF safe_openat_excl [OF assms]])
  apply (elim conjE)
  apply (intro safe_struct safe_silent safe_meta safe_copy_file_contents; assumption)
  done

lemma safe_pforeach:
  "(\<And>x. safe I (body x) (\<lambda>_. True)) \<Longrightarrow> safe I (pforeach xs body) (\<lambda>_. True)"
  by (induction xs) (auto intro: safe_struct)

lemma safe_copy_nssdb_files:
  "next_ino W \<le> destdir
   \<Longrightarrow> safe (run_inv W c es0 X P nT) (copy_nssdb_files cfg srcdir destdir) (\<lambda>_. True)"
  unfolding copy_nssdb_files_def by (intro safe_pforeach safe_copy_nssdb_file)

lemma safe_create_symlink:
  assumes "next_ino W \<le> d"
  shows "safe (run_inv W c es0 X P nT) (create_symlink d target name dbdir_name path)
           (\<lambda>fd. next_ino W \<le> fd)"
  unfolding create_symlink_def
  apply (rule safe_pseq0, rule safe_passert0)
  apply (rule safe_pseq0, rule safe_or_fatal0, rule safe_symlinkat, simp add: assms)
  apply (rule safe_pbind [OF safe_openat_new [OF assms]])
  apply (rule safe_pbind0, intro safe_struct safe_silent)
  apply (intro safe_if safe_pfail safe_pseq0 safe_pbind0 safe_or_fatal0 safe_silent safe_let)
  apply (erule safe_preturn)
  done

lemma safe_copy_metadata:
  assumes "next_ino W \<le> dest"
  shows "safe (run_inv W c es0 X P nT) (copy_metadata src dest path srcst ts) (\<lambda>_. True)"
  unfolding copy_metadata_def
  by (intro safe_struct safe_silent safe_meta [OF assms])

lemma safe_case_sum_eq:
  "(\<And>a. s = Inl a \<Longrightarrow> safe I (l a) \<psi>) \<Longrightarrow> (\<And>b. s = Inr b \<Longrightarrow> safe I (r b) \<psi>)
   \<Longrightarrow> safe I (case s of Inl a \<Rightarrow> l a | Inr b \<Rightarrow> r b) \<psi>"
  by (cases s) simp_all

lemma safe_case_prod_eq:
  "(\<And>a b. p = (a, b) \<Longrightarrow> safe I (f a b) \<psi>) \<Longrightarrow> safe I (case p of (a, b) \<Rightarrow> f a b) \<psi>"
  by (cases p) simp

lemma safe_copy_file:
  assumes "next_ino W \<le> destdir"
  shows "safe (run_inv W c es0 X P nT) (copy_file srcpfd destdir name path srcst) (\<lambda>_. True)"
  unfolding copy_file_def
proof (rule safe_pseq0 [OF safe_passert0], rule safe_pbind0,
    rule safe_weaken [OF safe_copy_fd], simp, rule safe_pbind [OF safe_openat])
  show "next_ino W \<le> destdir \<or> O_CREAT \<notin> set [O_RDWR, O_CREAT, O_EXCL]"
    using assms by simp
next
  fix src :: ino and r :: "errno + ino"
  assume r: "\<forall>fd. r = Inr fd \<longrightarrow> (next_ino W \<le> destdir \<longrightarrow> next_ino W \<le> fd)
        \<and> (O_CREAT \<in> set [O_RDWR, O_CREAT, O_EXCL] \<and> O_EXCL \<in> set [O_RDWR, O_CREAT, O_EXCL]
            \<longrightarrow> nT \<le> fd \<and> fd \<notin> fst ` set P)"
  show "safe (run_inv W c es0 X P nT)
     (pbind (case r of
              Inl e \<Rightarrow>
                if e \<noteq> EEXIST then pfail (FATAL ''Failed to create file'')
                else
                pbind (or_fatal (openat destdir name [O_WRONLY, O_NOFOLLOW] 0)
                         ''Failed to open file'') (\<lambda>dest.
                preturn (dest, False))
            | Inr dest \<Rightarrow>
                pseq (copy_file_contents src dest (tl path) srcst)
                     (preturn (dest, True))) (\<lambda>(dest, copy_timestamps).
     pseq (copy_metadata src dest path srcst copy_timestamps)
    (pseq (or_fatal (close src) ''Failed to close file: old'')
          (or_fatal (close dest) ''Failed to close file: new'')))) (\<lambda>_. True)"
  proof (rule safe_pbind [where \<phi> = "\<lambda>p. next_ino W \<le> fst p"])
    show "safe (run_inv W c es0 X P nT)
       (case r of
              Inl e \<Rightarrow>
                if e \<noteq> EEXIST then pfail (FATAL ''Failed to create file'')
                else
                pbind (or_fatal (openat destdir name [O_WRONLY, O_NOFOLLOW] 0)
                         ''Failed to open file'') (\<lambda>dest.
                preturn (dest, False))
            | Inr dest \<Rightarrow>
                pseq (copy_file_contents src dest (tl path) srcst)
                     (preturn (dest, True))) (\<lambda>p. next_ino W \<le> fst p)"
    proof (rule safe_case_sum_eq)
      fix e
      show "safe (run_inv W c es0 X P nT)
         (if e \<noteq> EEXIST then pfail (FATAL ''Failed to create file'')
          else pbind (or_fatal (openat destdir name [O_WRONLY, O_NOFOLLOW] 0)
                 ''Failed to open file'') (\<lambda>dest. preturn (dest, False)))
         (\<lambda>p. next_ino W \<le> fst p)"
        by (rule safe_if, rule safe_pfail, rule safe_pbind [OF safe_openat_new [OF assms]],
            rule safe_preturn, simp)
    next
      fix dest
      assume "r = Inr dest"
      with r assms have d: "next_ino W \<le> dest" "dest \<notin> fst ` set P" by auto
      show "safe (run_inv W c es0 X P nT)
          (pseq (copy_file_contents src dest (tl path) srcst) (preturn (dest, True)))
          (\<lambda>p. next_ino W \<le> fst p)"
        by (rule safe_pseq [OF safe_copy_file_contents [OF d]], rule safe_preturn, simp add: d)
    qed
  next
    fix p :: "ino \<times> bool"
    assume "next_ino W \<le> fst p"
    then show "safe (run_inv W c es0 X P nT)
       (case p of (dest, copy_timestamps) \<Rightarrow>
         pseq (copy_metadata src dest path srcst copy_timestamps)
        (pseq (or_fatal (close src) ''Failed to close file: old'')
          (or_fatal (close dest) ''Failed to close file: new''))) (\<lambda>_. True)"
      by (cases p) (auto intro!: safe_struct safe_silent safe_copy_metadata)
  qed
qed

lemma safe_copy_link:
  assumes "next_ino W \<le> destdir"
  shows "safe (run_inv W c es0 X P nT) (copy_link src destdir name path srcst) (\<lambda>_. True)"
  unfolding copy_link_def
  apply (rule safe_pseq0, rule safe_passert0)
  apply (rule safe_if, rule safe_pfail)
  apply (rule safe_pseq0, intro safe_struct safe_silent)
  apply (rule safe_pbind0, intro safe_struct safe_silent)
  apply (rule safe_let)
  apply (rule safe_pbind0, rule safe_globals)
  apply (rule safe_pbind [OF safe_create_symlink [OF assms]])
  apply (intro safe_struct safe_silent safe_copy_metadata)
  apply assumption
  done

lemma safe_copy_subdir:
  assumes "next_ino W \<le> destdir"
    and "\<And>s d p. next_ino W \<le> d \<Longrightarrow> safe (run_inv W c es0 X P nT) (recurse s d p) (\<lambda>_. True)"
  shows "safe (run_inv W c es0 X P nT) (copy_subdir recurse srcpfd destdir name path srcst)
           (\<lambda>_. True)"
  unfolding copy_subdir_def
  apply (rule safe_pseq0, rule safe_passert0)
  apply (rule safe_pbind0, rule safe_weaken [OF safe_copy_fd], simp)
  apply (rule safe_pseq0, rule safe_or_fatal0, rule safe_mkdirat, simp add: assms(1))
  apply (rule safe_pbind [OF safe_openat_new [OF assms(1)]])
  apply (intro safe_struct safe_silent safe_copy_metadata assms(2); assumption)
  done

lemma safe_readdir_loop:
  "(\<And>n. safe (run_inv W c es0 X P nT) (body n) (\<lambda>_. True))
   \<Longrightarrow> safe (run_inv W c es0 X P nT) (readdir_loop names body) (\<lambda>_. True)"
  by (induction names) (auto intro!: safe_struct safe_silent)

lemma safe_copy_dir_entry:
  assumes "next_ino W \<le> destdir"
    and "\<And>s d p. next_ino W \<le> d \<Longrightarrow> safe (run_inv W c es0 X P nT) (recurse s d p) (\<lambda>_. True)"
  shows "safe (run_inv W c es0 X P nT) (copy_dir_entry recurse srcdir destdir subdir d_name)
           (\<lambda>_. True)"
  unfolding copy_dir_entry_def
  apply (rule safe_if, rule safe_preturn0)
  apply (rule safe_pseq0, intro safe_struct safe_silent)
  apply (rule safe_let)
  apply (rule safe_pbind0, rule safe_or_fatal0, rule safe_openat0, simp)
  apply (rule safe_pbind0, intro safe_struct safe_silent)
  apply (intro safe_pseq0 safe_if safe_pfail safe_or_fatal0 safe_silent
           safe_copy_file [OF assms(1)] safe_copy_link [OF assms(1)]
           safe_copy_subdir [OF assms(1)] assms(2))
  apply assumption
  done

lemma safe_copy_dir_contents:
  "next_ino W \<le> destdir
   \<Longrightarrow> safe (run_inv W c es0 X P nT) (copy_dir_contents fuel srcdir destdir subdir) (\<lambda>_. True)"
proof (induction fuel arbitrary: srcdir destdir subdir)
  case 0
  show ?case by (simp add: safe_pfail)
next
  case (Suc fuel)
  show ?case
    unfolding copy_dir_contents.simps
    apply (rule safe_pseq0, rule safe_passert0)
    apply (rule safe_pbind0, rule safe_weaken [OF safe_copy_fd], simp)
    apply (rule safe_pbind0, intro safe_struct safe_silent)
    apply (rule safe_pseq0)
     apply (rule safe_readdir_loop)
     apply (rule safe_copy_dir_entry [OF Suc.prems])
     apply (erule Suc.IH)
    apply (intro safe_struct safe_silent)
    done
qed

lemma safe_copy_nssdb_dir:
  assumes "next_ino W \<le> destdir"
  shows "safe (run_inv W c es0 X P nT) (copy_nssdb_dir fuel srcdir destdir) (\<lambda>_. True)"
  unfolding copy_nssdb_dir_def
  by (intro safe_struct safe_silent safe_copy_dir_contents safe_copy_metadata assms)

lemma safe_set_effective_user:
  "safe (run_inv W c es0 X P nT) (set_effective_user u g) (\<lambda>_. True)"
  unfolding set_effective_user_def
  by (intro safe_struct safe_ids safe_globals)

subsection \<open>The run up to the copy of the store files\<close>

lemma run_inv_conf:
  assumes "run_inv W c es0 X P nT w" and "inodes w c = Some d" and "i_kind d = Dir es"
  shows "\<forall>nm j. map_of es nm = Some j \<longrightarrow> map_of es0 nm = Some j \<or> next_ino W \<le> j"
    and "\<forall>nm j. map_of es0 nm = Some j \<longrightarrow> map_of es nm = Some j"
proof -
  from assms(1) obtain d' es' where c: "inodes w c = Some d'" "i_kind d' = Dir es'"
    and a: "\<forall>nm j. map_of es' nm = Some j \<longrightarrow> map_of es0 nm = Some j \<or> next_ino W \<le> j"
    and b: "\<forall>nm j. map_of es0 nm = Some j \<longrightarrow> map_of es' nm = Some j"
    unfolding run_inv_def frame_ok_def by blast
  from c assms(2,3) have "es' = es" by simp
  with a b show "\<forall>nm j. map_of es nm = Some j \<longrightarrow> map_of es0 nm = Some j \<or> next_ino W \<le> j"
    and "\<forall>nm j. map_of es0 nm = Some j \<longrightarrow> map_of es nm = Some j"
    by simp_all
qed

text \<open>A name the run has added to the configuration directory is a new inode.\<close>

lemma safe_mkdirat_conf:
  "safe (run_inv W c es0 X P nT) (mkdirat c name m)
     (\<lambda>r. \<forall>u. r = Inr u \<longrightarrow> map_of es0 name = None)"
  unfolding mkdirat_def
proof (rule safe_call)
  fix w assume i: "run_inv W c es0 X P nT w"
  let ?f = "\<lambda>dn es w.
       case map_of es name of
         Some i \<Rightarrow> (Inl EEXIST, w)
       | None \<Rightarrow>
           (Inr (), log_ev (Ev_mkdirat c name)
                      (add_entry c dn es name (fresh_inode (Dir []) m w) w))"
  show "run_inv W c es0 X P nT (snd (with_dir c ?f w))
      \<and> (\<forall>x. fst (with_dir c ?f w) = Inr x \<longrightarrow> map_of es0 name = None)"
  proof (cases rule: with_dir_cases [of c ?f w])
    case (nodir e)
    with i show ?thesis by simp
  next
    case (dir dn es)
    note sub = run_inv_conf(2) [OF i dir(1,2)]
    show ?thesis
    proof (cases "map_of es name")
      case None
      have "run_inv W c es0 X P nT
          (log_ev (Ev_mkdirat c name) (add_entry c dn es name (fresh_inode (Dir []) m w) w))"
        by (intro run_inv_log_ev run_inv_add_entry [OF i _ dir(1,2) None])
           (simp_all add: fresh_inode_def)
      moreover from sub None have "map_of es0 name = None"
        by (cases "map_of es0 name") auto
      ultimately show ?thesis using dir None by simp
    next
      case (Some j)
      with dir i show ?thesis by simp
    qed
  qed
qed

lemma safe_openat_conf:
  assumes "map_of es0 name = None" and "O_CREAT \<notin> set fl"
  shows "safe (run_inv W c es0 X P nT) (openat c name fl m)
           (\<lambda>r. \<forall>fd. r = Inr fd \<longrightarrow> next_ino W \<le> fd)"
  unfolding openat_def
proof (rule safe_call)
  fix w assume i: "run_inv W c es0 X P nT w"
  let ?f = "\<lambda>dn es w.
       case map_of es name of
         None \<Rightarrow>
           if O_CREAT \<in> set fl
           then (Inr (next_ino w),
                 log_ev (Ev_creat c name)
                   (add_entry c dn es name (fresh_inode (Reg []) m w) w))
           else (Inl ENOENT, w)
       | Some i \<Rightarrow>
           if O_CREAT \<in> set fl \<and> O_EXCL \<in> set fl then (Inl EEXIST, w)
           else open_inode i fl w"
  show "run_inv W c es0 X P nT (snd (with_dir c ?f w))
      \<and> (\<forall>x. fst (with_dir c ?f w) = Inr x \<longrightarrow> next_ino W \<le> x)"
  proof (cases rule: with_dir_cases [of c ?f w])
    case (nodir e)
    with i show ?thesis by simp
  next
    case (dir dn es)
    note new = run_inv_conf(1) [OF i dir(1,2)]
    show ?thesis
    proof (cases "map_of es name")
      case None
      with dir assms i show ?thesis by simp
    next
      case (Some j)
      obtain r w' where o: "open_inode j fl w = (r, w')" by (cases "open_inode j fl w")
      from open_inode_result [OF o] have w': "w' = w" and r: "\<forall>fd. r = Inr fd \<longrightarrow> fd = j"
        by simp_all
      from new Some have "map_of es0 name = Some j \<or> next_ino W \<le> j" by blast
      with assms(1) have "next_ino W \<le> j" by simp
      with dir Some assms(2) o w' r i show ?thesis by auto
    qed
  qed
qed

lemma safe_pseq_fact:
  "safe I m \<phi> \<Longrightarrow> (\<And>x. \<phi> x \<Longrightarrow> safe I n \<psi>) \<Longrightarrow> safe I (pseq m n) \<psi>"
  unfolding pseq_def by (rule safe_pbind)

lemma safe_old_nssdb_dir:
  "safe (run_inv W c es0 X P nT) (old_nssdb_dir d) (\<lambda>_. True)"
  unfolding old_nssdb_dir_def
  apply (rule safe_pbind0, rule safe_or_fatal0, rule safe_openat0, simp)
  apply (rule safe_pbind0, rule safe_or_fatal0, rule safe_silent)
  apply (rule safe_if, rule safe_pfail)
  apply (rule safe_if, rule safe_pfail)
  apply (rule safe_pbind0, rule safe_or_fatal0, rule safe_silent)
  apply (rule safe_let)
  apply (rule safe_pseq0, rule safe_globals)
  apply (rule safe_if, rule safe_pfail)
  apply (rule safe_pseq0, rule safe_or_fatal0, rule safe_silent)
  apply (rule safe_pseq0, rule safe_or_fatal0, rule safe_silent)
  apply (rule safe_pbind0, rule safe_globals)
  apply (rule safe_pbind0, rule safe_or_fatal0, rule safe_openat0, simp)
  apply (rule safe_preturn0)
  done

lemma safe_new_nssdb_dir:
  "safe (run_inv W c es0 X P nT) (new_nssdb_dir cfg c) (\<lambda>fd. next_ino W \<le> fd)"
  unfolding new_nssdb_dir_def
  apply (rule safe_pbind0, rule safe_globals)
  apply (rule safe_if, rule safe_pfail)
  apply (rule safe_pseq0, rule safe_globals)
  apply (rule safe_if, rule safe_pfail)
  apply (rule safe_pseq0, rule safe_globals)
  apply (rule safe_pbind0, rule safe_globals)
  apply (rule safe_pseq_fact [OF safe_or_fatal [OF safe_mkdirat_conf]])
  apply (rule safe_pbind [OF safe_or_fatal [OF safe_openat_conf]])
    apply assumption
   apply simp
  apply (rule safe_pseq0, rule safe_or_fatal0, erule safe_meta)
  apply (erule safe_preturn)
  done

section \<open>A store file that changes while it is copied\<close>

text \<open>
  Other processes write nothing but the inode \<open>s\<close>, and every inode they write
  there carries a modification time other than \<open>t\<close>; the next \<open>k\<close> calls pass without
  a write; one of the next \<open>k\<close> calls comes after a write.
\<close>

definition changes_only :: "ino \<Rightarrow> timespec \<Rightarrow> world \<Rightarrow> bool" where
  "changes_only s t w =
     (\<forall>st \<in> set (sched w). \<forall>p \<in> set (env_writes st). fst p = s \<and> i_mtim (snd p) \<noteq> t)"

definition quiet_for :: "nat \<Rightarrow> world \<Rightarrow> bool" where
  "quiet_for k w = (\<forall>st \<in> set (take k (sched w)). env_writes st = [])"

definition writes_within :: "nat \<Rightarrow> world \<Rightarrow> bool" where
  "writes_within k w = (\<exists>st \<in> set (take k (sched w)). env_writes st \<noteq> [])"

definition wf_ino :: "world \<Rightarrow> bool" where
  "wf_ino w = (\<forall>i \<ge> next_ino w. inodes w i = None)"

definition raced :: "ino \<Rightarrow> timespec \<Rightarrow> world \<Rightarrow> bool" where
  "raced s t w = (\<exists>m. inodes w s = Some m \<and> i_mtim m \<noteq> t)"

text \<open>
  The source \<open>s\<close> was \<open>n\<close> when it was opened; by now it has been written, or it will
  have been within \<open>k\<close> calls.
\<close>

definition racing :: "ino \<Rightarrow> inode \<Rightarrow> nat \<Rightarrow> world \<Rightarrow> bool" where
  "racing s n k w =
     (wf_ino w \<and> changes_only s (i_mtim n) w
      \<and> (raced s (i_mtim n) w \<or> (inodes w s = Some n \<and> writes_within k w)))"

text \<open>
  The source is about to be opened, under \<open>name\<close> in \<open>srcdir\<close>: no write during the
  next \<open>k\<close> calls, a write within the next \<open>j\<close>.
\<close>

definition at_open ::
  "ino \<Rightarrow> string \<Rightarrow> ino \<Rightarrow> inode \<Rightarrow> nat \<Rightarrow> nat \<Rightarrow> world \<Rightarrow> bool" where
  "at_open srcdir name s n k j w =
     (wf_ino w \<and> changes_only s (i_mtim n) w \<and> inodes w s = Some n
      \<and> (\<exists>d es. inodes w srcdir = Some d \<and> i_kind d = Dir es \<and> map_of es name = Some s)
      \<and> quiet_for k w \<and> writes_within j w)"

lemma env_write_at:
  assumes "fst p = s" and "inodes w s = Some m"
  shows "next_ino (env_write p w) = next_ino w"
    and "i \<noteq> s \<Longrightarrow> inodes (env_write p w) i = inodes w i"
    and "inodes (env_write p w) s = Some m \<or> inodes (env_write p w) s = Some (snd p)"
    and "\<not> is_lnk (i_kind m) \<Longrightarrow> inodes (env_write p w) s = Some (snd p)"
  using assms by (auto simp: env_write_def)

lemma fold_env_write_raced:
  assumes "\<forall>p \<in> set ps. fst p = s \<and> i_mtim (snd p) \<noteq> t"
    and "inodes w s = Some m"
    and "i_mtim m \<noteq> t \<or> (ps \<noteq> [] \<and> \<not> is_lnk (i_kind m))"
  shows "next_ino (fold env_write ps w) = next_ino w
       \<and> (\<forall>i. i \<noteq> s \<longrightarrow> inodes (fold env_write ps w) i = inodes w i)
       \<and> raced s t (fold env_write ps w)"
  using assms
proof (induction ps arbitrary: w m)
  case Nil
  then show ?case by (simp add: raced_def)
next
  case (Cons p ps)
  from Cons.prems(1) have p: "fst p = s" "i_mtim (snd p) \<noteq> t" by simp_all
  note e = env_write_at [OF p(1) Cons.prems(2)]
  from e(3,4) Cons.prems(3) p(2) obtain m' where
    m': "inodes (env_write p w) s = Some m'" "i_mtim m' \<noteq> t"
    by auto
  from Cons.prems(1) have rest: "\<forall>p \<in> set ps. fst p = s \<and> i_mtim (snd p) \<noteq> t" by simp
  from Cons.IH [OF rest m'(1)] m'(2) e(1,2) show ?case by simp
qed

lemma racing_env_step:
  assumes "racing s n (Suc k) w" and "\<not> is_lnk (i_kind n)"
  shows "racing s n k (snd (env_step w))"
proof (cases "sched w")
  case Nil
  with assms show ?thesis
    by (simp add: racing_def env_step_def writes_within_def)
next
  case (Cons st ss)
  let ?w1 = "w\<lparr>sched := ss\<rparr>"
  let ?w2 = "fold env_write (env_writes st) ?w1"
  from Cons have es: "snd (env_step w) = ?w2" by (simp add: env_step_def)
  from assms(1) Cons have all: "\<forall>p \<in> set (env_writes st). fst p = s \<and> i_mtim (snd p) \<noteq> i_mtim n"
    and co: "changes_only s (i_mtim n) ?w2"
    by (auto simp: racing_def changes_only_def)
  from assms(1) have wf: "wf_ino w" by (simp add: racing_def)
  show ?thesis
  proof (cases "env_writes st = [] \<and> \<not> raced s (i_mtim n) w")
    case True
    with assms(1) Cons have "inodes w s = Some n" "writes_within k ?w1"
      by (auto simp: racing_def writes_within_def)
    with True wf co show ?thesis
      unfolding es by (simp add: racing_def wf_ino_def writes_within_def)
  next
    case False
    with assms(1) obtain m where m: "inodes ?w1 s = Some m"
      "i_mtim m \<noteq> i_mtim n \<or> (env_writes st \<noteq> [] \<and> \<not> is_lnk (i_kind m))"
      using assms(2) by (auto simp: racing_def raced_def)
    note f = fold_env_write_raced [OF all m]
    from m(1) wf have "s < next_ino w" by (cases "s < next_ino w") (auto simp: wf_ino_def)
    with f wf have "wf_ino ?w2" by (auto simp: wf_ino_def)
    with f co show ?thesis unfolding es by (simp add: racing_def)
  qed
qed

lemma racing_cong:
  "racing s n k w \<Longrightarrow> wf_ino w' \<Longrightarrow> inodes w' s = inodes w s \<Longrightarrow> sched w' = sched w
   \<Longrightarrow> racing s n k w'"
  by (simp add: racing_def raced_def changes_only_def writes_within_def)

lemma racing_exists: "racing s n k w \<Longrightarrow> inodes w s \<noteq> None"
  by (auto simp: racing_def raced_def)

lemma racing_call:
  assumes op: "\<And>w. wf_ino w \<Longrightarrow> inodes w s \<noteq> None \<Longrightarrow>
      wf_ino (snd (op w)) \<and> inodes (snd (op w)) s = inodes w s \<and> sched (snd (op w)) = sched w
      \<and> (\<forall>x. fst (op w) = Inr x \<longrightarrow> \<psi> x)"
    and "\<not> is_lnk (i_kind n)"
  shows "hoare (racing s n (Suc k)) (or_fatal (syscall op) msg)
           (\<lambda>x w. racing s n k w \<and> \<psi> x) (\<lambda>_ _. True)"
proof (rule hoare_call [where P' = "racing s n k"])
  fix w assume "racing s n (Suc k) w"
  then show "racing s n k (snd (env_step w))" by (rule racing_env_step) (rule assms(2))
next
  fix w assume r: "racing s n k w"
  then have "wf_ino w" by (simp add: racing_def)
  from op [OF this racing_exists [OF r]] racing_cong [OF r, of "snd (op w)"]
  show "case op w of (Inl e, w2) \<Rightarrow> True | (Inr x, w2) \<Rightarrow> racing s n k w2 \<and> \<psi> x"
    by (cases "op w") (auto split: sum.splits)
qed simp

lemma wf_ino_upd:
  assumes "wf_ino w" and "inodes w fd = Some n" and "next_ino w' = next_ino w"
    and "inodes w' = (inodes w)(fd \<mapsto> n')"
  shows "wf_ino w'"
proof -
  from assms(1,2) have "fd < next_ino w" by (cases "fd < next_ino w") (auto simp: wf_ino_def)
  with assms show ?thesis by (auto simp: wf_ino_def)
qed

text \<open>A call that writes one inode other than the source.\<close>

lemma racing_write:
  assumes "wf_ino w" and "inodes w fd = Some d" and "fd \<noteq> s"
  shows "wf_ino (log_ev e (set_inode fd d' w))
       \<and> inodes (log_ev e (set_inode fd d' w)) s = inodes w s
       \<and> sched (log_ev e (set_inode fd d' w)) = sched w"
  using wf_ino_upd [OF assms(1,2), of "log_ev e (set_inode fd d' w)" d'] assms(3)
  by (simp add: log_ev_def set_inode_def)

lemma racing_creat:
  assumes "destdir \<noteq> s" and "\<not> is_lnk (i_kind n)"
  shows "hoare (racing s n (Suc k))
           (or_fatal (openat destdir name [O_RDWR, O_CREAT, O_EXCL] m) msg)
           (\<lambda>dest w. dest \<noteq> s \<and> racing s n k w) (\<lambda>_ _. True)"
  unfolding openat_def
proof (rule hoare_weaken [OF racing_call [where \<psi> = "\<lambda>dest. dest \<noteq> s", OF _ assms(2)]])
  fix w assume wf: "wf_ino w" and s: "inodes w s \<noteq> None"
  let ?f = "\<lambda>d es w.
       case map_of es name of
         None \<Rightarrow>
           if O_CREAT \<in> set [O_RDWR, O_CREAT, O_EXCL]
           then (Inr (next_ino w),
                 log_ev (Ev_creat destdir name)
                   (add_entry destdir d es name (fresh_inode (Reg []) m w) w))
           else (Inl ENOENT, w)
       | Some i \<Rightarrow>
           if O_CREAT \<in> set [O_RDWR, O_CREAT, O_EXCL] \<and> O_EXCL \<in> set [O_RDWR, O_CREAT, O_EXCL]
           then (Inl EEXIST, w)
           else open_inode i [O_RDWR, O_CREAT, O_EXCL] w"
  from wf s have sn: "s \<noteq> next_ino w" by (auto simp: wf_ino_def)
  show "wf_ino (snd (with_dir destdir ?f w))
      \<and> inodes (snd (with_dir destdir ?f w)) s = inodes w s
      \<and> sched (snd (with_dir destdir ?f w)) = sched w
      \<and> (\<forall>x. fst (with_dir destdir ?f w) = Inr x \<longrightarrow> x \<noteq> s)"
  proof (cases rule: with_dir_cases [of destdir ?f w])
    case (nodir e)
    with wf show ?thesis by simp
  next
    case (dir dn es)
    from dir(1) wf have "destdir < next_ino w"
      by (cases "destdir < next_ino w") (auto simp: wf_ino_def)
    with dir wf sn assms(1) show ?thesis
      by (cases "map_of es name")
         (auto simp: add_entry_def log_ev_def wf_ino_def)
  qed
qed blast+

lemma racing_fallocate:
  assumes "dest \<noteq> s" and "\<not> is_lnk (i_kind n)"
  shows "hoare (racing s n (Suc k)) (or_fatal (fallocate dest len) msg)
           (\<lambda>_ w. racing s n k w) (\<lambda>_ _. True)"
  unfolding fallocate_def
proof (rule hoare_weaken [OF racing_call [where \<psi> = "\<lambda>_. True", OF _ assms(2)]])
  fix w assume wf: "wf_ino w"
  let ?f = "\<lambda>n w.
       case i_kind n of
         Reg bs \<Rightarrow>
           (Inr (), log_ev (Ev_fallocate dest)
              (set_inode dest (n\<lparr>i_kind := Reg (bs @ zeros (nat len - length bs))\<rparr>) w))
       | _ \<Rightarrow> (Inl EINVAL, w)"
  show "wf_ino (snd (with_inode dest ?f w))
      \<and> inodes (snd (with_inode dest ?f w)) s = inodes w s
      \<and> sched (snd (with_inode dest ?f w)) = sched w
      \<and> (\<forall>x. fst (with_inode dest ?f w) = Inr x \<longrightarrow> True)"
  proof (cases rule: with_inode_cases [of dest ?f w])
    case none
    with wf show ?thesis by simp
  next
    case (some d)
    with wf racing_write [OF wf some(1) assms(1)] show ?thesis
      by (cases "i_kind d") simp_all
  qed
qed simp_all

lemma racing_silent:
  assumes "\<not> is_lnk (i_kind n)"
  shows "hoare (racing s n (Suc k)) (or_fatal (mmap fd len) msg)
           (\<lambda>_ w. racing s n k w) (\<lambda>_ _. True)"
    and "hoare (racing s n (Suc k)) (or_fatal (munmap fd len) msg)
           (\<lambda>_ w. racing s n k w) (\<lambda>_ _. True)"
  unfolding mmap_def munmap_def
  by (rule hoare_weaken [OF racing_call [where \<psi> = "\<lambda>_. True", OF _ assms]],
      auto simp: with_inode_def split: option.splits kind.splits)+

lemma racing_memcpy_map:
  assumes "dest \<noteq> s"
  shows "hoare (racing s n k) (memcpy_map dest src len) (\<lambda>_ w. racing s n k w) (\<lambda>_ _. True)"
proof (rule hoareI)
  fix w assume r: "racing s n k w"
  then have wf: "wf_ino w" by (simp add: racing_def)
  show "case memcpy_map dest src len w of
          (Inl e, w') \<Rightarrow> True | (Inr x, w') \<Rightarrow> racing s n k w'"
  proof (cases "inodes w dest")
    case None
    with r show ?thesis by (simp add: memcpy_map_def)
  next
    case (Some d)
    show ?thesis
      using racing_write [OF wf Some assms] racing_cong [OF r] Some
      by (simp add: memcpy_map_def)
  qed
qed

lemma racing_fstat:
  assumes "\<not> is_lnk (i_kind n)"
  shows "hoare (racing s n (Suc 0)) (or_fatal (fstat s) msg)
           (\<lambda>st w. st_mtim st \<noteq> i_mtim n) (\<lambda>_ _. True)"
  unfolding fstat_def
proof (rule hoare_call [where P' = "racing s n 0"])
  fix w assume "racing s n (Suc 0) w"
  then show "racing s n 0 (snd (env_step w))" by (rule racing_env_step) (rule assms)
next
  fix w assume "racing s n 0 w"
  then obtain m where "inodes w s = Some m" "i_mtim m \<noteq> i_mtim n"
    by (auto simp: racing_def raced_def writes_within_def)
  then show "case with_inode s (\<lambda>n w. (Inr (stat_of n), w)) w of
          (Inl e, w2) \<Rightarrow> True | (Inr x, w2) \<Rightarrow> st_mtim x \<noteq> i_mtim n"
    by (simp add: with_inode_def stat_of_def)
qed simp

lemma timespec_neq:
  "(a :: timespec) \<noteq> b \<Longrightarrow> tv_sec a \<noteq> tv_sec b \<or> tv_nsec a \<noteq> tv_nsec b"
  by (cases a; cases b) auto

text \<open>From the creation of the destination on, the copy of a source that is written ends badly.\<close>

lemma copy_file_contents_detects:
  assumes "i_kind n = Reg bs" and "bs \<noteq> []" and "dest \<noteq> s"
  shows "hoare (racing s n 6) (copy_file_contents s dest path (stat_of n))
           (\<lambda>_ _. False) (\<lambda>_ _. True)"
proof -
  from assms(1) have nl: "\<not> is_lnk (i_kind n)" by simp
  from assms(1,2) have sz: "st_size (stat_of n) \<noteq> 0" by (simp add: stat_of_def)
  have six: "(6::nat) = Suc 5" "(5::nat) = Suc 4" "(4::nat) = Suc 3" "(3::nat) = Suc 2"
    "(2::nat) = Suc 1" "(1::nat) = Suc 0" by simp_all
  have last: "hoare (racing s n (Suc 0))
     (pbind (or_fatal (fstat s) ''Failed to read file info'') (\<lambda>st.
       if tv_sec (st_mtim st) \<noteq> tv_sec (st_mtim (stat_of n))
            \<or> tv_nsec (st_mtim st) \<noteq> tv_nsec (st_mtim (stat_of n))
       then pfail (FATAL ''File changed during copy'')
       else preturn ())) (\<lambda>_ _. False) (\<lambda>_ _. True)"
  proof (rule hoare_pbind [OF racing_fstat [OF nl]])
    fix st
    show "hoare (\<lambda>w. st_mtim st \<noteq> i_mtim n)
            (if tv_sec (st_mtim st) \<noteq> tv_sec (st_mtim (stat_of n))
                  \<or> tv_nsec (st_mtim st) \<noteq> tv_nsec (st_mtim (stat_of n))
             then pfail (FATAL ''File changed during copy'')
             else preturn ()) (\<lambda>_ _. False) (\<lambda>_ _. True)"
      by (rule hoare_if, rule hoare_pfail, simp, rule hoare_preturn)
         (auto simp: stat_of_def dest: timespec_neq)
  qed
  show ?thesis
    unfolding copy_file_contents_def
    apply (rule hoare_pseq [where R = "racing s n 6"])
     apply (rule hoare_passert; simp)
    apply (simp only: sz if_False)
    apply (rule hoare_if, rule hoare_pfail, simp)
    apply (subst six(1), rule hoare_pseq [OF racing_fallocate [OF assms(3) nl]])
    apply (subst six(2), rule hoare_pseq [OF racing_silent(1) [OF nl]])
    apply (subst six(3), rule hoare_pseq [OF racing_silent(1) [OF nl]])
    apply (rule hoare_pseq [OF racing_memcpy_map [OF assms(3)]])
    apply (subst six(4), rule hoare_pseq [OF racing_silent(2) [OF nl]])
    apply (subst six(5), rule hoare_pseq [OF racing_silent(2) [OF nl]])
    apply (subst six(6), rule last)
    done
qed

lemma at_open_env_step:
  assumes "at_open srcdir name s n (Suc k) (Suc j) w"
  shows "snd (env_step w) = w\<lparr>sched := tl (sched w)\<rparr>"
    and "at_open srcdir name s n k j (w\<lparr>sched := tl (sched w)\<rparr>)"
proof -
  from assms obtain st ss where c: "sched w = st # ss"
    by (cases "sched w") (auto simp: at_open_def writes_within_def)
  with assms have q: "env_writes st = []" by (simp add: at_open_def quiet_for_def)
  with c show "snd (env_step w) = w\<lparr>sched := tl (sched w)\<rparr>" by (simp add: env_step_def)
  from assms c q have "writes_within j (w\<lparr>sched := ss\<rparr>)" "quiet_for k (w\<lparr>sched := ss\<rparr>)"
    by (auto simp: at_open_def quiet_for_def writes_within_def)
  with assms c show "at_open srcdir name s n k j (w\<lparr>sched := tl (sched w)\<rparr>)"
    by (simp add: at_open_def wf_ino_def changes_only_def)
qed

lemma at_open_openat:
  "hoare (at_open srcdir name s n (Suc k) (Suc j))
     (or_fatal (openat srcdir name [O_RDONLY, O_NOFOLLOW] m) msg)
     (\<lambda>fd w. fd = s \<and> at_open srcdir name s n k j w) (\<lambda>_ _. True)"
  unfolding openat_def
proof (rule hoare_call [where P' = "at_open srcdir name s n k j"])
  fix w assume "at_open srcdir name s n (Suc k) (Suc j) w"
  from at_open_env_step [OF this] show "at_open srcdir name s n k j (snd (env_step w))" by simp
next
  fix w assume a: "at_open srcdir name s n k j w"
  then obtain d es where d: "inodes w srcdir = Some d" "i_kind d = Dir es"
    "map_of es name = Some s"
    by (auto simp: at_open_def)
  obtain r w' where o: "open_inode s [O_RDONLY, O_NOFOLLOW] w = (r, w')"
    by (cases "open_inode s [O_RDONLY, O_NOFOLLOW] w")
  from open_inode_result [OF o] a d o
  show "case with_dir srcdir (\<lambda>d es w.
             case map_of es name of
               None \<Rightarrow>
                 if O_CREAT \<in> set [O_RDONLY, O_NOFOLLOW]
                 then (Inr (next_ino w),
                       log_ev (Ev_creat srcdir name)
                         (add_entry srcdir d es name (fresh_inode (Reg []) m w) w))
                 else (Inl ENOENT, w)
             | Some i \<Rightarrow>
                 if O_CREAT \<in> set [O_RDONLY, O_NOFOLLOW] \<and> O_EXCL \<in> set [O_RDONLY, O_NOFOLLOW]
                 then (Inl EEXIST, w)
                 else open_inode i [O_RDONLY, O_NOFOLLOW] w) w of
          (Inl e, w2) \<Rightarrow> True
        | (Inr x, w2) \<Rightarrow> x = s \<and> at_open srcdir name s n k j w2"
    by (auto simp: with_dir_def with_inode_def split: sum.splits)
qed simp

lemma at_open_fstat:
  "hoare (at_open srcdir name s n (Suc 0) (Suc j)) (or_fatal (fstat s) msg)
     (\<lambda>st w. st = stat_of n \<and> racing s n j w) (\<lambda>_ _. True)"
  unfolding fstat_def
proof (rule hoare_call [where P' = "at_open srcdir name s n 0 j"])
  fix w assume "at_open srcdir name s n (Suc 0) (Suc j) w"
  from at_open_env_step [OF this] show "at_open srcdir name s n 0 j (snd (env_step w))" by simp
next
  fix w assume a: "at_open srcdir name s n 0 j w"
  then show "case with_inode s (\<lambda>n w. (Inr (stat_of n), w)) w of
          (Inl e, w2) \<Rightarrow> True | (Inr x, w2) \<Rightarrow> x = stat_of n \<and> racing s n j w2"
    by (auto simp: with_inode_def at_open_def racing_def)
qed simp

text \<open>
  The copy of one store file: when the source is not empty as it is opened, and
  another process writes it after the \<^verbatim>\<open>fstat\<close> that follows the open and before
  the \<^verbatim>\<open>fstat\<close> that follows the copy, the function does not return.
\<close>

lemma copy_nssdb_file_detects:
  assumes "at_open srcdir name s n 2 9 w" and "i_kind n = Reg bs" and "bs \<noteq> []"
    and "destdir \<noteq> s"
  shows "\<exists>e w'. copy_nssdb_file cfg srcdir destdir name w = (Inl e, w')"
proof -
  from assms(2) have nl: "\<not> is_lnk (i_kind n)" by simp
  have num: "(2::nat) = Suc (Suc 0)" "(9::nat) = Suc (Suc (Suc 6))" by simp_all
  have tail: "hoare (\<lambda>w. dest \<noteq> s \<and> racing s n 6 w)
       (pseq (copy_file_contents s dest name (stat_of n)) rest)
       (\<lambda>_ _. False) (\<lambda>_ _. True)" for dest and rest :: "unit prog"
    by (rule hoare_assume, rule hoare_pseq [OF copy_file_contents_detects [OF assms(2,3)]])
       (simp_all add: hoare_False)
  have h: "hoare (at_open srcdir name s n (Suc (Suc 0)) (Suc (Suc (Suc 6))))
             (copy_nssdb_file cfg srcdir destdir name) (\<lambda>_ _. False) (\<lambda>_ _. True)"
    unfolding copy_nssdb_file_def
    apply (rule hoare_pbind [OF at_open_openat])
    apply (rule hoare_assume, hypsubst)
    apply (rule hoare_pbind [OF at_open_fstat])
    apply (rule hoare_assume, hypsubst)
    apply (rule hoare_if, rule hoare_pfail, simp)
    apply (rule hoare_pbind [OF racing_creat [OF assms(4) nl]])
    apply (rule tail)
    done
  from assms(1) have "at_open srcdir name s n (Suc (Suc 0)) (Suc (Suc (Suc 6))) w"
    by (simp only: num)
  with h show ?thesis
    by (cases "copy_nssdb_file cfg srcdir destdir name w";
        cases "fst (copy_nssdb_file cfg srcdir destdir name w)")
       (auto simp: hoare_def)
qed

lemma pforeach_append:
  "pforeach (xs @ ys) body = pseq (pforeach xs body) (pforeach ys body)"
  by (induction xs) (simp_all add: pseq_def pbind_def fun_eq_iff split: prod.splits sum.splits)

lemma run_inv_start:
  assumes "\<forall>i \<ge> next_ino w. inodes w i = None"
    and "inodes w c = Some cd" and "i_kind cd = Dir es0"
    and "\<forall>i \<in> X. i < next_ino w \<and> i \<noteq> c"
    and "nss w = None" and "sched_ok X w"
  shows "run_inv w c es0 X [] (next_ino w) w"
proof -
  from assms(1,2) have "c < next_ino w" by (cases "c < next_ino w") auto
  with assms show ?thesis
    unfolding run_inv_def frame_ok_def by auto
qed

lemma copy_nssdb_file_nss: "keeps nss (copy_nssdb_file cfg srcdir destdir name)"
  unfolding copy_nssdb_file_def
  by (intro keeps_struct copy_file_contents_nss) simp_all

lemma copy_nssdb_file_journal:
  "journal_adds copy_event (copy_nssdb_file cfg srcdir destdir name)"
  unfolding copy_nssdb_file_def
  by (intro journal_adds_struct copy_file_contents_journal) simp_all

lemma copy_nssdb_file_errors:
  assumes "name \<in> set nssdb_names"
  shows "errors_in (range FATAL \<union> {KILLED ''SIGBUS''})
           (copy_nssdb_file cfg srcdir destdir name)"
proof -
  from assms have "name \<noteq> [] \<and> hd name \<noteq> CHR ''/''" by (auto simp: nssdb_names_def)
  then have p: "passert (name \<noteq> [] \<and> hd name \<noteq> CHR ''/'') ''copy_file_contents: path''
      = preturn ()" by simp
  have c: "errors_in (range FATAL \<union> {KILLED ''SIGBUS''})
             (copy_file_contents src dest name st)" for src dest st
    unfolding copy_file_contents_def p pseq_preturn
    by (intro errors_in_pbind errors_in_pseq errors_in_or_fatal errors_in_if errors_in_pfail
          errors_in_preturn errors_in_kernel errors_in_memcpy_map) simp_all
  show ?thesis
    unfolding copy_nssdb_file_def
    by (intro errors_in_pbind errors_in_pseq errors_in_or_fatal errors_in_if errors_in_pfail
          errors_in_preturn errors_in_kernel c) simp_all
qed

text \<open>
  C3. The run has reached the copy of the store file \<open>name\<close>, one of the three, in the
  world \<open>w4\<close>: the file is the inode \<open>s\<close>, it is \<open>n\<close> there, regular and not empty.
  Other processes write nothing but \<open>s\<close>, and from here on what they write carries a
  modification time other than the one of \<open>n\<close>. The Store File Replicator opens \<open>s\<close> and
  reads its attributes, by \<^verbatim>\<open>fstat\<close>, without a write in between (the first two
  calls); a write follows during one of the next seven calls, which are the creation
  of the destination, \<^verbatim>\<open>fallocate\<close>, the two \<^verbatim>\<open>mmap\<close>, the two \<^verbatim>\<open>munmap\<close> and the
  \<^verbatim>\<open>fstat\<close> after the copy. Then the run ends there: with a fatal error, or killed by
  \<^verbatim>\<open>SIGBUS\<close> when the write has cut the mapped source short by a page or more. The
  certificate database has not been opened, the journal holds nothing but events of
  copying (no record deleted or imported, nothing renamed or removed), the alias has
  the target it had, every name of the configuration directory is bound as it was,
  and no inode of the initial world other than the configuration directory and \<open>s\<close>
  has changed: the old generation is intact and the alias names it.

  The hypotheses speak of a run that got as far as the copy, so of an alias whose
  target is a name held in the configuration directory: the directory model does not
  resolve \<^verbatim>\<open>.\<close> and \<^verbatim>\<open>..\<close>.
\<close>

theorem store_file_race_is_fatal:
  assumes wf: "\<forall>i \<ge> next_ino w. inodes w i = None"
    and conf: "inodes w c = Some cd" "i_kind cd = Dir es0"
    and al: "map_of es0 ''alias'' = Some a" "lnk_at a t w" "a \<noteq> s"
    and nss0: "nss w = None"
    and src: "s < next_ino w" "s \<noteq> c"
    and others: "\<forall>st \<in> set (sched w). \<forall>p \<in> set (env_writes st). fst p = s"
    and r1: "or_fatal (open_abs httpd_conf_dir [O_RDONLY, O_DIRECTORY])
               ''Failed to open directory: httpd_conf_dir'' w = (Inr c, w1)"
    and r2: "old_nssdb_dir c w1 = (Inr (old, linkst), w2)"
    and r3: "new_nssdb_dir cfg c w2 = (Inr new, w3)"
    and names: "nssdb_names = copied @ name # rest"
    and r4: "pforeach copied (copy_nssdb_file cfg old new) w3 = (Inr (), w4)"
    and dir4: "inodes w4 old = Some od" "i_kind od = Dir eso" "map_of eso name = Some s"
    and src4: "inodes w4 s = Some n" "i_kind n = Reg bs" "bs \<noteq> []"
    and change: "changes_only s (i_mtim n) w4"
    and window: "quiet_for 2 w4" "writes_within 9 w4"
  shows "\<exists>e w'. main cfg fuel w = (Inl e, w')
           \<and> copy_nssdb_file cfg old new name w4 = (Inl e, w')
           \<and> e \<in> range FATAL \<union> {KILLED ''SIGBUS''}
           \<and> nss w' = None
           \<and> (\<exists>evs. journal w' = journal w @ evs \<and> (\<forall>ev \<in> set evs. copy_event ev))
           \<and> alias_target c w' = Some t
           \<and> (\<exists>cd' es'. inodes w' c = Some cd' \<and> i_kind cd' = Dir es'
                 \<and> (\<forall>nm j. map_of es0 nm = Some j \<longrightarrow> map_of es' nm = Some j))
           \<and> (\<forall>i < next_ino w. i \<noteq> c \<and> i \<noteq> s \<longrightarrow> inodes w' i = inodes w i)"
proof -
  let ?I = "run_inv w c es0 {s} [] (next_ino w)"
  let ?m1 = "or_fatal (open_abs httpd_conf_dir [O_RDONLY, O_DIRECTORY])
               ''Failed to open directory: httpd_conf_dir''"
  have i0: "?I w"
    by (rule run_inv_start [OF wf conf]) (use src nss0 others in \<open>auto simp: sched_ok_def\<close>)
  have s1: "safe ?I ?m1 (\<lambda>_. True)" by (intro safe_struct safe_silent)
  note i1 = safeD(1) [OF s1 i0 r1]
  note i2 = safeD(1) [OF safe_old_nssdb_dir i1 r2]
  note i3 = safeD(1) [OF safe_new_nssdb_dir i2 r3]
  from safeD(2) [OF safe_new_nssdb_dir i2 r3] have new: "next_ino w \<le> new" by simp
  have s4: "safe ?I (pforeach copied (copy_nssdb_file cfg old new)) (\<lambda>_. True)"
    by (intro safe_pforeach safe_copy_nssdb_file new)
  note i4 = safeD(1) [OF s4 i3 r4]
  from i4 have wf4: "wf_ino w4" by (simp add: run_inv_def frame_ok_def wf_ino_def)
  from dir4 src4 change window wf4 have ao: "at_open old name s n 2 9 w4"
    unfolding at_open_def by blast
  from new src have ns: "new \<noteq> s" by simp
  from copy_nssdb_file_detects [OF ao src4(2,3) ns, of cfg] obtain e w'
    where r5: "copy_nssdb_file cfg old new name w4 = (Inl e, w')" by blast
  note i5 = safeD(1) [OF safe_copy_nssdb_file [OF new] i4 r5]
  have m: "main cfg fuel w = (Inl e, w')"
    using r1 r2 r3 r4 r5
    by (simp add: main_def copy_nssdb_files_def names pforeach_append pbind_def pseq_def)
  have "name \<in> set nssdb_names" unfolding names by simp
  from errors_inD [OF copy_nssdb_file_errors [OF this] r5]
  have e: "e \<in> range FATAL \<union> {KILLED ''SIGBUS''}" .
  have k1: "keeps nss ?m1" by (intro keeps_struct) simp_all
  have k4: "keeps nss (pforeach copied (copy_nssdb_file cfg old new))"
    by (intro keeps_pforeach copy_nssdb_file_nss)
  have n: "nss w' = None"
    using keepsD2 [OF k1 r1] keepsD2 [OF old_nssdb_dir_nss r2]
      keepsD2 [OF new_nssdb_dir_nss r3] keepsD2 [OF k4 r4]
      keepsD2 [OF copy_nssdb_file_nss r5] nss0
    by simp
  have j1: "journal_adds copy_event ?m1" by (intro journal_adds_struct)
  have j4: "journal_adds copy_event (pforeach copied (copy_nssdb_file cfg old new))"
    by (intro journal_adds_pforeach copy_nssdb_file_journal)
  from journal_addsD [OF j1 r1] obtain e1
    where 1: "journal w1 = journal w @ e1" "\<forall>ev \<in> set e1. copy_event ev" by blast
  from journal_addsD [OF old_nssdb_dir_journal r2] obtain e2
    where 2: "journal w2 = journal w1 @ e2" "\<forall>ev \<in> set e2. copy_event ev" by blast
  from journal_addsD [OF new_nssdb_dir_journal r3] obtain e3
    where 3: "journal w3 = journal w2 @ e3" "\<forall>ev \<in> set e3. copy_event ev" by blast
  from journal_addsD [OF j4 r4] obtain e4
    where 4: "journal w4 = journal w3 @ e4" "\<forall>ev \<in> set e4. copy_event ev" by blast
  from journal_addsD [OF copy_nssdb_file_journal r5] obtain e5
    where 5: "journal w' = journal w4 @ e5" "\<forall>ev \<in> set e5. copy_event ev" by blast
  from 1 2 3 4 5
  have j: "\<exists>evs. journal w' = journal w @ evs \<and> (\<forall>ev \<in> set evs. copy_event ev)"
    by (intro exI [of _ "e1 @ e2 @ e3 @ e4 @ e5"]) auto
  from i5 obtain cd' es' where c': "inodes w' c = Some cd'" "i_kind cd' = Dir es'"
    "\<forall>nm j. map_of es0 nm = Some j \<longrightarrow> map_of es' nm = Some j"
    unfolding run_inv_def frame_ok_def by blast
  from i5 have fr: "\<forall>i < next_ino w. i \<noteq> c \<and> i \<noteq> s \<longrightarrow> inodes w' i = inodes w i"
    unfolding run_inv_def frame_ok_def by simp
  from al(2) obtain an where an: "inodes w a = Some an" "i_kind an = Lnk t"
    by (auto simp: lnk_at_def)
  from an(1) wf have "a < next_ino w" by (cases "a < next_ino w") auto
  moreover from an conf have "a \<noteq> c" by auto
  ultimately have "inodes w' a = Some an" using fr al(3) an(1) by simp
  with c' al(1) an(2) have at: "alias_target c w' = Some t"
    by (simp add: alias_target_def)
  from m r5 e n j at c' fr show ?thesis by blast
qed

text \<open>
  The witness: \<^verbatim>\<open>key3.db\<close>, the second store file, is rewritten by another process
  while it is mapped (at the 30th call of the run, the sixth of its copy).
\<close>

definition ex_race_key3 :: "step list" where
  "ex_race_key3 = replicate 29 ex_ok
     @ [\<lparr>env_writes = [(5, ex_inode (Reg ''kz'') 48 5 0x180 99)], fault = None\<rparr>]"

theorem store_file_race_is_fatal_witness:
  "fst (main ex_cfg 2 (ex_world ex_race_key3)) = Inl (FATAL ''File changed during copy'')
   \<and> nss (snd (main ex_cfg 2 (ex_world ex_race_key3))) = None
   \<and> alias_target 1 (snd (main ex_cfg 2 (ex_world ex_race_key3)))
       = Some ''alias-20230101000000''
   \<and> map (inodes (snd (main ex_cfg 2 (ex_world ex_race_key3)))) [2, 3, 4, 6, 7, 8, 9, 10]
       = map (inodes (ex_world ex_race_key3)) [2, 3, 4, 6, 7, 8, 9, 10]"
proof -
  let ?w = "ex_world ex_race_key3"
  let ?m1 = "or_fatal (open_abs httpd_conf_dir [O_RDONLY, O_DIRECTORY])
             ''Failed to open directory: httpd_conf_dir''"
  let ?w1 = "snd (?m1 ?w)"
  let ?w2 = "snd (old_nssdb_dir 1 ?w1)"
  let ?st = "stat_of (ex_inode (Lnk ''alias-20230101000000'') 7 8 0x1FF 11)"
  let ?w3 = "snd (new_nssdb_dir ex_cfg 1 ?w2)"
  let ?w4 = "snd (pforeach [''cert8.db''] (copy_nssdb_file ex_cfg 3 11) ?w3)"
  let ?n = "ex_inode (Reg ''k'') 48 5 0x180 14"
  let ?od = "ex_inode (Dir [(''cert8.db'', 4), (''key3.db'', 5), (''secmod.db'', 6),
                         (''pkcs11'', 7), (''lnk'', 9)]) 0 48 0x1E8 12"
  have wf: "\<forall>i \<ge> next_ino ?w. inodes ?w i = None"
    by (auto simp: ex_world_def ex_fs_def)
  have conf: "inodes ?w 1
      = Some (ex_inode (Dir [(''alias'', 2), (''alias-20230101000000'', 3)]) 0 0 0x1ED 10)"
    "i_kind (ex_inode (Dir [(''alias'', 2), (''alias-20230101000000'', 3)]) 0 0 0x1ED 10)
      = Dir [(''alias'', 2), (''alias-20230101000000'', 3)]"
    by (simp_all add: ex_world_def ex_fs_def ex_inode_def)
  have al: "map_of [(''alias'', 2), (''alias-20230101000000'', 3)] ''alias'' = Some (2::nat)"
    "lnk_at 2 ''alias-20230101000000'' ?w" "(2::nat) \<noteq> 5"
    by (simp_all add: lnk_at_def ex_world_def ex_fs_def ex_inode_def)
  have nss0: "nss ?w = None" by (simp add: ex_world_def)
  have src: "5 < next_ino ?w" "(5::nat) \<noteq> 1" by (simp_all add: ex_world_def)
  have others: "\<forall>st \<in> set (sched ?w). \<forall>p \<in> set (env_writes st). fst p = 5"
    by (auto simp: ex_world_def ex_race_key3_def ex_ok_def)
  have 1: "?m1 ?w = (Inr 1, ?w1)" by (rule fst_eqD) code_simp
  have 2: "old_nssdb_dir 1 ?w1 = (Inr (3, ?st), ?w2)" by (rule fst_eqD) code_simp
  have 3: "new_nssdb_dir ex_cfg 1 ?w2 = (Inr 11, ?w3)" by (rule fst_eqD) code_simp
  have names: "nssdb_names = [''cert8.db''] @ ''key3.db'' # [''secmod.db'']"
    by (simp add: nssdb_names_def)
  have 4: "pforeach [''cert8.db''] (copy_nssdb_file ex_cfg 3 11) ?w3 = (Inr (), ?w4)"
    by (rule fst_eqD) code_simp
  have dir4: "inodes ?w4 3 = Some ?od"
    "i_kind ?od = Dir [(''cert8.db'', 4), (''key3.db'', 5), (''secmod.db'', 6),
                         (''pkcs11'', 7), (''lnk'', 9)]"
    "map_of [(''cert8.db'', 4), (''key3.db'', 5), (''secmod.db'', 6),
                         (''pkcs11'', 7), (''lnk'', 9)] ''key3.db'' = Some (5::nat)"
    by code_simp+
  have src4: "inodes ?w4 5 = Some ?n" "i_kind ?n = Reg ''k''" "''k'' \<noteq> []"
    by code_simp+
  have change: "changes_only 5 (i_mtim ?n) ?w4" by code_simp
  have window: "quiet_for 2 ?w4" "writes_within 9 ?w4" by code_simp+
  from store_file_race_is_fatal [OF wf conf al nss0 src others 1 2 3 names 4 dir4 src4
      change window, of 2]
  obtain e w' where m: "main ex_cfg 2 ?w = (Inl e, w')"
    and n: "nss w' = None"
    and a: "alias_target 1 w' = Some ''alias-20230101000000''"
    and f: "\<forall>i < next_ino ?w. i \<noteq> 1 \<and> i \<noteq> 5 \<longrightarrow> inodes w' i = inodes ?w i"
    by blast
  have e: "fst (main ex_cfg 2 ?w) = Inl (FATAL ''File changed during copy'')" by code_simp
  from m have w': "snd (main ex_cfg 2 ?w) = w'" by simp
  have nx: "next_ino ?w = 11" by (simp add: ex_world_def)
  from f have "map (inodes w') [2, 3, 4, 6, 7, 8, 9, 10]
       = map (inodes ?w) [2, 3, 4, 6, 7, 8, 9, 10]"
    unfolding nx by simp
  with e n a show ?thesis unfolding w' by simp
qed

end
